theory Spec2Isabelle
  imports Main "HOL-Library.AList" "HOL-Library.Product_Lexorder"
begin

section \<open>Constants of the dice plugin\<close>

definition MAX_DICE :: int where
  "MAX_DICE = 1000"

text \<open>Number of seconds a high score remains valid (7 days).\<close>

definition WEEK_SECONDS :: int where
  "WEEK_SECONDS = 7 * 24 * 60 * 60"

section \<open>Text helpers\<close>

text \<open>
  Strings are \<^typ>\<open>string\<close>; the model reads every character as one ASCII code
  point. \<open>str_int\<close> is Python's \<open>str\<close> (and \<open>%d\<close>) on an integer.
\<close>

definition digit_char :: "nat \<Rightarrow> char" where
  "digit_char n = ''0123456789'' ! n"

function str_nat :: "nat \<Rightarrow> string" where
  "str_nat n = (if n < 10 then [digit_char n] else str_nat (n div 10) @ [digit_char (n mod 10)])"
  by pat_completeness auto
termination
  by (relation "measure id") auto

definition str_int :: "int \<Rightarrow> string" where
  "str_int i = (if i < 0 then CHR ''-'' # str_nat (nat (- i)) else str_nat (nat i))"

text \<open>\<open>s.startswith(p)\<close>.\<close>

definition startswith :: "string \<Rightarrow> string \<Rightarrow> bool" where
  "startswith s p = (take (length p) s = p)"

text \<open>\<open>s.lower()\<close> on ASCII text: the letters A to Z move to a to z.\<close>

definition lower_char :: "char \<Rightarrow> char" where
  "lower_char c =
     (case map_of (zip ''ABCDEFGHIJKLMNOPQRSTUVWXYZ'' ''abcdefghijklmnopqrstuvwxyz'') c of
        None \<Rightarrow> c
      | Some l \<Rightarrow> l)"

definition lower :: "string \<Rightarrow> string" where
  "lower s = map lower_char s"

section \<open>Errors\<close>

text \<open>
  The exceptions the plugin can raise. The first four are the subclasses of \<open>DiceError\<close>;
  \<open>ValueError\<close>, \<open>KeyError\<close>, \<open>TypeError\<close> and \<open>OverflowError\<close> are
  Python's own.
\<close>

datatype error =
    InvalidDiceFacesError int
  | NegativeDiceCountError int
  | TooManyDiceError int int
  | UnableToDropDiceError int int
  | ValueError
  | KeyError
  | TypeError
  | OverflowError

text \<open>\<open>isinstance(exc, DiceError)\<close>\<close>

fun is_DiceError :: "error \<Rightarrow> bool" where
  "is_DiceError (InvalidDiceFacesError faces) = True"
| "is_DiceError (NegativeDiceCountError count) = True"
| "is_DiceError (TooManyDiceError requested available) = True"
| "is_DiceError (UnableToDropDiceError dropped tot) = True"
| "is_DiceError ValueError = False"
| "is_DiceError KeyError = False"
| "is_DiceError TypeError = False"
| "is_DiceError OverflowError = False"

text \<open>
  \<open>_get_error_message\<close>. Its last line shows \<open>repr(exc)\<close> for an error that
  is none of the four; \<open>roll\<close> hands it one of the four only, and the model leaves
  the \<open>repr\<close> out.
\<close>

fun get_error_message :: "error \<Rightarrow> string" where
  "get_error_message (InvalidDiceFacesError faces) =
     ''I don't have any dice with '' @ str_int faces @ '' sides.''"
| "get_error_message (NegativeDiceCountError count) =
     ''I can't roll '' @ str_int count @ '' dice.''"
| "get_error_message (TooManyDiceError requested available) =
     ''I only have '' @ str_int available @ ''/'' @ str_int requested @ '' dice.''"
| "get_error_message (UnableToDropDiceError dropped tot) =
     ''I can't drop the lowest '' @ str_int dropped @ '' of '' @ str_int tot @ '' dice.''"
| "get_error_message exc = ''Unknown error rolling dice''"

section \<open>Scoreboard persistence helpers\<close>

text \<open>
  The table \<open>dice_highscores(channel, nick, score, set_at)\<close> with
  \<open>PRIMARY KEY(channel, nick)\<close>: a list of rows in insertion order, each a key
  \<open>(channel, nick)\<close> with its \<open>(score, set_at)\<close>. The primary key is the
  predicate \<open>primary_key\<close>: no two rows share a key.
\<close>

type_synonym key = "string \<times> string"
type_synonym row = "int \<times> int"
type_synonym table = "(key \<times> row) list"

definition primary_key :: "table \<Rightarrow> bool" where
  "primary_key db = distinct (map fst db)"

text \<open>
  Every statement goes through \<open>bot.db.execute\<close>, which belongs to the bot and not to
  the plugin. It runs the statement on a connection of its own and closes the connection
  when the statement has run; the plugin never commits.
  The engine commits by itself a statement whose text starts with \<open>UPDATE\<close>,
  \<open>INSERT\<close>, \<open>CREATE\<close>, \<open>DELETE\<close>, \<open>DROP\<close> or \<open>ALTER\<close>. What
  any other statement has written, a \<open>REPLACE\<close> among them, is rolled back when its
  connection is closed.
\<close>

datatype sql_verb = UPDATE | INSERT | CREATE | DELETE | DROP | ALTER | REPLACE | SELECT

definition autocommit :: "sql_verb \<Rightarrow> bool" where
  "autocommit verb = (verb \<in> set [UPDATE, INSERT, CREATE, DELETE, DROP, ALTER])"

text \<open>
  \<open>execute verb db written\<close> is the table after the call, where \<open>db\<close> is the table
  before it and \<open>written\<close> the table the statement leaves on its connection.
\<close>

definition execute :: "sql_verb \<Rightarrow> table \<Rightarrow> table \<Rightarrow> table" where
  "execute verb db written = (if autocommit verb then written else db)"

text \<open>
  A Python \<open>int\<close> is bound as an SQLite \<open>INTEGER\<close> of 64 bits; binding one that
  does not fit raises \<open>OverflowError\<close>.
\<close>

definition sqlite_int :: "int \<Rightarrow> bool" where
  "sqlite_int i = (- (2 ^ 63) \<le> i \<and> i < 2 ^ 63)"

text \<open>\<open>DELETE FROM dice_highscores WHERE set_at < ?\<close>\<close>

definition delete_where_set_at_less :: "int \<Rightarrow> table \<Rightarrow> table" where
  "delete_where_set_at_less threshold db = filter (\<lambda>(k, (score, set_at)). \<not> set_at < threshold) db"

text \<open>\<open>SELECT score, set_at FROM dice_highscores WHERE channel = ? AND nick = ?\<close>, \<open>fetchone()\<close>\<close>

definition select_row :: "table \<Rightarrow> string \<Rightarrow> string \<Rightarrow> row option" where
  "select_row db channel nick = map_of db (channel, nick)"

text \<open>
  \<open>REPLACE INTO dice_highscores(channel, nick, score, set_at) VALUES (?,?,?,?)\<close>:
  the row holding the key, if any, is deleted and the new row is inserted.
\<close>

definition replace_row :: "table \<Rightarrow> string \<Rightarrow> string \<Rightarrow> int \<Rightarrow> int \<Rightarrow> table" where
  "replace_row db channel nick score set_at =
     AList.delete (channel, nick) db @ [((channel, nick), (score, set_at))]"

text \<open>
  The statement as \<open>_update_highscore\<close> runs it, through \<open>bot.db.execute\<close> with
  the parameters \<open>(channel, nick, score, now)\<close>. The score is the value of the user's
  arithmetic and can be any integer: when it, or the time, does not fit 64 bits, the call
  raises \<open>OverflowError\<close>. When both fit, the statement runs, and what it has written
  is kept only if the engine commits a \<open>REPLACE\<close>.
\<close>

definition replace_into :: "table \<Rightarrow> string \<Rightarrow> string \<Rightarrow> int \<Rightarrow> int \<Rightarrow> error + table" where
  "replace_into db channel nick score set_at =
     (if sqlite_int score \<and> sqlite_int set_at
      then Inr (execute REPLACE db (replace_row db channel nick score set_at))
      else Inl OverflowError)"

text \<open>\<open>LIMIT ?\<close>: a negative limit is no limit.\<close>

definition sql_limit :: "int \<Rightarrow> 'a list \<Rightarrow> 'a list" where
  "sql_limit limit xs = (if limit < 0 then xs else take (nat limit) xs)"

text \<open>
  \<open>SELECT nick, score, set_at FROM dice_highscores WHERE channel = ? AND set_at >= ?
  ORDER BY score DESC, set_at ASC LIMIT ?\<close>. Rows that tie on both sort keys stay
  in table order.
\<close>

definition select_top :: "table \<Rightarrow> string \<Rightarrow> int \<Rightarrow> int \<Rightarrow> (string \<times> int \<times> int) list" where
  "select_top db channel threshold limit =
     sql_limit limit
       (sort_key (\<lambda>(nick, score, set_at). (- score, set_at))
          (map (\<lambda>((channel', nick), (score, set_at)). (nick, score, set_at))
             (filter (\<lambda>((channel', nick), (score, set_at)). channel' = channel \<and> set_at \<ge> threshold) db)))"

text \<open>
  \<open>clock\<close> is what \<open>int(time.time())\<close> returns during the call. Every function
  that touches the table returns the table it leaves behind. The thresholds the
  \<open>DELETE\<close> and the \<open>SELECT\<close> statements bind are clock readings less a week.
\<close>

definition purge_expired :: "int \<Rightarrow> table \<Rightarrow> int option \<Rightarrow> table" where
  "purge_expired clock db now_opt =
     (let now = (case now_opt of None \<Rightarrow> clock | Some n \<Rightarrow> n);
          threshold = now - WEEK_SECONDS
      in execute DELETE db (delete_where_set_at_less threshold db))"

definition update_highscore ::
  "int \<Rightarrow> table \<Rightarrow> string \<Rightarrow> string \<Rightarrow> int \<Rightarrow> int option \<Rightarrow> error + (int option \<times> table)" where
  "update_highscore clock db channel nick score now_opt =
     (let now = (case now_opt of None \<Rightarrow> clock | Some n \<Rightarrow> n);
          db1 = purge_expired clock db (Some now);
          row = select_row db1 channel nick;
          prev_score =
            (case row of
               None \<Rightarrow> None
             | Some (prev_score_val, set_at) \<Rightarrow>
                 if set_at \<ge> now - WEEK_SECONDS then Some prev_score_val else None)
      in if (case prev_score of None \<Rightarrow> True | Some p \<Rightarrow> score > p) then
           (case replace_into db1 channel nick score now of
              Inl exc \<Rightarrow> Inl exc
            | Inr db2 \<Rightarrow> Inr (prev_score, db2))
         else Inr (prev_score, db1))"

definition get_channel_highscores ::
  "int \<Rightarrow> table \<Rightarrow> string \<Rightarrow> int \<Rightarrow> (string \<times> int \<times> int) list \<times> table" where
  "get_channel_highscores clock db channel limit =
     (let now = clock;
          db1 = purge_expired clock db (Some now)
      in (select_top db1 channel (now - WEEK_SECONDS) limit, db1))"

definition format_age :: "int \<Rightarrow> string" where
  "format_age seconds =
     (let days = seconds div 86400 in
      if days > 0 then str_int days @ ''d''
      else let hours = seconds div 3600 in
      if hours > 0 then str_int hours @ ''h''
      else let minutes = seconds div 60 in
      if minutes > 0 then str_int minutes @ ''m''
      else str_int seconds @ ''s'')"

text \<open>What a command sends back: \<open>bot.say\<close> or \<open>bot.reply\<close>.\<close>

datatype bot_output = Say string | Reply string

record trigger =
  sender :: string
  nick :: string
  group2 :: "string option"

definition my_highscore :: "int \<Rightarrow> table \<Rightarrow> trigger \<Rightarrow> bot_output \<times> table" where
  "my_highscore clock db trg =
     (if \<not> startswith (sender trg) ''#'' then
        (Reply ''High scores are channel-specific; use this in a channel.'', db)
      else
        let channel = lower (sender trg);
            now = clock;
            db1 = purge_expired clock db (Some now);
            row = select_row db1 channel (nick trg)
        in case row of
             None \<Rightarrow> (Say (nick trg @ '': you don't have a weekly high score yet. Roll!''), db1)
           | Some (score, set_at) \<Rightarrow>
               if set_at < now - WEEK_SECONDS then
                 (Say (nick trg @ '': you don't have a weekly high score yet. Roll!''), db1)
               else
                 (Say (nick trg @ '': your weekly high is '' @ str_int score
                         @ '' ('' @ format_age (now - set_at) @ '' ago)''), db1))"

section \<open>The random source\<close>

text \<open>
  \<open>random.randint(a, b)\<close> raises \<open>ValueError\<close> on an empty range and returns
  some integer \<open>N\<close> with \<open>a \<le> N \<le> b\<close> otherwise. The generator's state is an
  endless tape of naturals: a draw reads the head, reduces it into the range and
  leaves the rest of the tape. Every tape is allowed, so every outcome in the range is.
\<close>

type_synonym rng = "nat \<Rightarrow> nat"

definition randint :: "int \<Rightarrow> int \<Rightarrow> rng \<Rightarrow> error + (int \<times> rng)" where
  "randint a b g =
     (if b < a then Inl ValueError
      else Inr (a + int (g 0 mod nat (b - a + 1)), \<lambda>i. g (Suc i)))"

section \<open>Dictionaries\<close>

text \<open>
  A Python \<open>dict[int, int]\<close> keeps its keys in insertion order: a list of
  \<open>(key, value)\<close> pairs. \<open>d[k] = v\<close> is \<open>AList.update k v d\<close> (in place when
  the key is there, appended otherwise), \<open>del d[k]\<close> is \<open>AList.delete k d\<close>,
  \<open>d.items()\<close> is the list itself.
\<close>

type_synonym dict = "(int \<times> int) list"

text \<open>\<open>d.setdefault(k, v)\<close>: the value read, and the dictionary after.\<close>

definition setdefault :: "int \<Rightarrow> int \<Rightarrow> dict \<Rightarrow> int \<times> dict" where
  "setdefault k v d = (case map_of d k of Some c \<Rightarrow> (c, d) | None \<Rightarrow> (v, d @ [(k, v)]))"

text \<open>\<open>d.get(k, v)\<close> and \<open>k in d\<close>.\<close>

definition dict_get :: "dict \<Rightarrow> int \<Rightarrow> int \<Rightarrow> int" where
  "dict_get d k v = (case map_of d k of Some c \<Rightarrow> c | None \<Rightarrow> v)"

definition dict_contains :: "dict \<Rightarrow> int \<Rightarrow> bool" where
  "dict_contains d k = (map_of d k \<noteq> None)"

section \<open>The dice pouch\<close>

text \<open>The body of the \<open>for\<close> loop of \<open>roll_dice\<close>, run \<open>k\<close> more times.\<close>

fun roll_loop :: "nat \<Rightarrow> int \<Rightarrow> dict \<Rightarrow> rng \<Rightarrow> error + (dict \<times> rng)" where
  "roll_loop 0 t d g = Inr (d, g)"
| "roll_loop (Suc k) t d g =
     (case randint 1 t g of
        Inl e \<Rightarrow> Inl e
      | Inr (number, g') \<Rightarrow>
          (case setdefault number 0 d of
             (count, d1) \<Rightarrow> roll_loop k t (AList.update number (count + 1) d1) g'))"

text \<open>
  The first loop of \<open>drop_lowest\<close> over \<open>sorted_x\<close>, on the dictionaries
  \<open>self.dice\<close> and \<open>self.dropped\<close> and the number \<open>n\<close> still to drop.
  \<open>self.dice[i]\<close> raises \<open>KeyError\<close> on a missing key.
\<close>

fun drop_loop :: "(int \<times> int) list \<Rightarrow> dict \<Rightarrow> dict \<Rightarrow> int \<Rightarrow> error + (dict \<times> dict)" where
  "drop_loop [] d dr n = Inr (d, dr)"
| "drop_loop ((i, c) # sorted_x) d dr n =
     (case map_of d i of
        None \<Rightarrow> Inl KeyError
      | Some count \<Rightarrow>
          if n = 0 then Inr (d, dr)
          else if n < count then Inr (AList.update i (count - n) d, AList.update i n dr)
          else drop_loop sorted_x (AList.update i 0 d) (AList.update i count dr) (n - count))"

text \<open>The second loop of \<open>drop_lowest\<close>, over \<open>list(self.dropped.items())\<close>.\<close>

fun drop_cleanup :: "(int \<times> int) list \<Rightarrow> dict \<Rightarrow> dict" where
  "drop_cleanup [] d = d"
| "drop_cleanup ((i, count) # items) d =
     drop_cleanup items
       (if dict_get d i 0 = 0 \<and> dict_contains d i then AList.delete i d else d)"

record DicePouch =
  num :: int
  type :: int
  dice :: dict
  dropped :: dict

definition roll_dice :: "DicePouch \<Rightarrow> rng \<Rightarrow> error + (DicePouch \<times> rng)" where
  "roll_dice self g =
     (case roll_loop (nat (num self)) (type self) [] g of
        Inl e \<Rightarrow> Inl e
      | Inr (d, g') \<Rightarrow> Inr (self\<lparr>dice := d, dropped := []\<rparr>, g'))"

text \<open>\<open>DicePouch(dice_count, dice_type)\<close>\<close>

definition DicePouch_init :: "int \<Rightarrow> int \<Rightarrow> rng \<Rightarrow> error + (DicePouch \<times> rng)" where
  "DicePouch_init dice_count dice_type g =
     roll_dice \<lparr>num = dice_count, type = dice_type, dice = [], dropped = []\<rparr> g"

definition drop_lowest :: "DicePouch \<Rightarrow> int \<Rightarrow> error + DicePouch" where
  "drop_lowest self n =
     (let sorted_x = sort_key fst (dice self) in
      case drop_loop sorted_x (dice self) (dropped self) n of
        Inl e \<Rightarrow> Inl e
      | Inr (d, dr) \<Rightarrow> Inr (self\<lparr>dice := drop_cleanup dr d, dropped := dr\<rparr>))"

text \<open>\<open>sep.join(parts)\<close>\<close>

fun join :: "string \<Rightarrow> string list \<Rightarrow> string" where
  "join sep [] = []"
| "join sep [x] = x"
| "join sep (x # y # ys) = x @ sep @ join sep (y # ys)"

text \<open>
  The generators \<open>faces\<close> and \<open>dfaces\<close> of the two renderings: one string for
  each face-value group. \<open>[s] * times\<close> is the empty list when \<open>times \<le> 0\<close>.
\<close>

definition simple_groups :: "dict \<Rightarrow> string list" where
  "simple_groups d = map (\<lambda>(face, times). join ''+'' (replicate (nat times) (str_int face))) d"

definition compressed_groups :: "dict \<Rightarrow> string list" where
  "compressed_groups d = map (\<lambda>(face, times). str_int times @ ''x'' @ str_int face) d"

definition get_simple_string :: "DicePouch \<Rightarrow> string" where
  "get_simple_string self =
     (let dice_str = join ''+'' (simple_groups (dice self));
          dropped_str =
            (if dropped self \<noteq> [] then ''[+'' @ join ''+'' (simple_groups (dropped self)) @ '']''
             else '''')
      in ''('' @ dice_str @ dropped_str @ '')'')"

definition get_compressed_string :: "DicePouch \<Rightarrow> string" where
  "get_compressed_string self =
     (let dice_str = join ''+'' (compressed_groups (dice self));
          dropped_str =
            (if dropped self \<noteq> [] then ''[+'' @ join ''+'' (compressed_groups (dropped self)) @ '']''
             else '''')
      in ''('' @ dice_str @ dropped_str @ '')'')"

definition get_sum :: "DicePouch \<Rightarrow> int" where
  "get_sum self = foldl (\<lambda>result (face, times). result + face * times) 0 (dice self)"

definition get_number_of_faces :: "DicePouch \<Rightarrow> int" where
  "get_number_of_faces self = int (length (dice self)) + int (length (dropped self))"

section \<open>The dice notation\<close>

text \<open>
  The pattern of \<open>roll\<close>, under \<open>re.IGNORECASE | re.VERBOSE\<close>:
  \<^verbatim>\<open>(?P<dice_num>-?\d*) d (?P<dice_type>-?\d+) (v(?P<drop_lowest>-?\d+))?\<close>
  A match holds the text of its three groups; the third is \<open>None\<close> when the optional
  part did not take part in the match.
\<close>

record dice_match =
  group_dice_num :: string
  group_dice_type :: string
  group_drop_lowest :: "string option"

definition is_digit :: "char \<Rightarrow> bool" where
  "is_digit c = (c \<in> set ''0123456789'')"

text \<open>
  \<open>-?\d*\<close> at the head of a text, greedy: the sign taken, the digits taken, and
  the text left.
\<close>

definition signed_digits :: "string \<Rightarrow> string \<times> string \<times> string" where
  "signed_digits s =
     (case s of
        [] \<Rightarrow> ('''', '''', s)
      | c # cs \<Rightarrow>
          if c = CHR ''-'' then (''-'', takeWhile is_digit cs, dropWhile is_digit cs)
          else ('''', takeWhile is_digit s, dropWhile is_digit s))"

text \<open>
  The optional part \<^verbatim>\<open>(v(?P<drop_lowest>-?\d+))?\<close> at the head of a text: the text
  of the group and the text left, or \<open>None\<close> when the part takes no part in the match.
\<close>

definition match_drop :: "string \<Rightarrow> (string \<times> string) option" where
  "match_drop s =
     (case s of
        [] \<Rightarrow> None
      | v # s4 \<Rightarrow>
          if v \<noteq> CHR ''v'' \<and> v \<noteq> CHR ''V'' then None
          else (case signed_digits s4 of
                  (sign3, digits3, s5) \<Rightarrow>
                    if digits3 = [] then None else Some (sign3 @ digits3, s5)))"

text \<open>
  One attempt of the pattern at the head of a text: the match and the text after it.
  No digit is a \<open>d\<close> or a \<open>v\<close> and no digit is a sign, so giving back a digit or a
  sign never turns a failed attempt into a match: the greedy attempt is the only one.
  An attempt with a sign and no digit after \<open>d\<close> fails; one with no digit after
  \<open>v\<close> matches without the optional part.
\<close>

definition match_at :: "string \<Rightarrow> (dice_match \<times> string) option" where
  "match_at s =
     (case signed_digits s of
        (sign1, digits1, s1) \<Rightarrow>
          (case s1 of
             [] \<Rightarrow> None
           | c # s2 \<Rightarrow>
               if c \<noteq> CHR ''d'' \<and> c \<noteq> CHR ''D'' then None
               else (case signed_digits s2 of
                       (sign2, digits2, s3) \<Rightarrow>
                         if digits2 = [] then None
                         else (case match_drop s3 of
                                 None \<Rightarrow>
                                   Some (\<lparr>group_dice_num = sign1 @ digits1,
                                          group_dice_type = sign2 @ digits2,
                                          group_drop_lowest = None\<rparr>, s3)
                               | Some (drop_text, s5) \<Rightarrow>
                                   Some (\<lparr>group_dice_num = sign1 @ digits1,
                                          group_dice_type = sign2 @ digits2,
                                          group_drop_lowest = Some drop_text\<rparr>, s5)))))"

lemma signed_digits_length:
  "signed_digits s = (sg, ds, r) \<Longrightarrow> length r \<le> length s"
  by (auto simp: signed_digits_def length_dropWhile_le le_SucI split: list.splits if_splits)

lemma match_drop_length:
  "match_drop s = Some (t, r) \<Longrightarrow> length r < length s"
  by (auto simp: match_drop_def le_imp_less_Suc split: list.splits if_splits prod.splits
      dest!: signed_digits_length)

lemma match_at_length:
  "match_at s = Some (m, r) \<Longrightarrow> length r < length s"
  unfolding match_at_def
  by (fastforce split: list.splits if_splits prod.splits option.splits
      dest: signed_digits_length match_drop_length)

text \<open>
  \<open>re.finditer\<close> with the pattern: the attempts run from left to right, and after a
  match the scan goes on behind it. The pattern matches no empty text.
\<close>

function finditer :: "string \<Rightarrow> dice_match list" where
  "finditer [] = []"
| "finditer (c # cs) =
     (case match_at (c # cs) of
        None \<Rightarrow> finditer cs
      | Some (m, rest) \<Rightarrow> m # finditer rest)"
  by pat_completeness auto
termination
  by (relation "measure length") (auto dest: match_at_length)

text \<open>\<open>re.sub\<close> with the pattern and a replacement that holds no backslash.\<close>

function re_sub :: "string \<Rightarrow> string \<Rightarrow> string" where
  "re_sub repl [] = []"
| "re_sub repl (c # cs) =
     (case match_at (c # cs) of
        None \<Rightarrow> c # re_sub repl cs
      | Some (m, rest) \<Rightarrow> repl @ re_sub repl rest)"
  by pat_completeness auto
termination
  by (relation "measure (\<lambda>(repl, s). length s)") (auto dest: match_at_length)

text \<open>\<open>s.split("#", 1)[0]\<close>: the text before the first \<open>#\<close>, all of it when there is none.\<close>

definition split_hash :: "string \<Rightarrow> string" where
  "split_hash s = takeWhile (\<lambda>c. c \<noteq> CHR ''#'') s"

text \<open>\<open>s.strip()\<close>, with the ASCII characters Python counts as whitespace.\<close>

definition is_space :: "char \<Rightarrow> bool" where
  "is_space c =
     (c \<in> set [CHR 0x09, CHR 0x0A, CHR 0x0B, CHR 0x0C, CHR 0x0D,
               CHR 0x1C, CHR 0x1D, CHR 0x1E, CHR 0x1F, CHR '' ''])"

definition strip :: "string \<Rightarrow> string" where
  "strip s = rev (dropWhile is_space (rev (dropWhile is_space s)))"

text \<open>\<open>s.replace("%", "%%")\<close>\<close>

definition escape_percent :: "string \<Rightarrow> string" where
  "escape_percent s = concat (map (\<lambda>c. if c = CHR ''%'' then ''%%'' else [c]) s)"

text \<open>
  \<open>int(s)\<close> on the texts a group of the pattern can hold, an optional \<open>-\<close> before
  decimal digits: the number when there is a digit, \<open>ValueError\<close> when there is none.
  (Python's \<open>int\<close> reads more than that, surrounding blanks or a \<open>+\<close>; no group
  holds such a text. The interpreter's limit on the number of digits is left out.)
\<close>

definition digit_value :: "char \<Rightarrow> int" where
  "digit_value c = int (length (takeWhile (\<lambda>d. d \<noteq> c) ''0123456789''))"

definition decimal :: "string \<Rightarrow> int" where
  "decimal ds = foldl (\<lambda>acc c. 10 * acc + digit_value c) 0 ds"

definition py_int :: "string \<Rightarrow> error + int" where
  "py_int s =
     (case s of
        [] \<Rightarrow> Inl ValueError
      | c # cs \<Rightarrow>
          if c = CHR ''-'' then
            (if cs \<noteq> [] \<and> list_all is_digit cs then Inr (- decimal cs) else Inl ValueError)
          else if list_all is_digit s then Inr (decimal s)
          else Inl ValueError)"

section \<open>Rolling\<close>

text \<open>
  \<open>_roll_dice\<close>. \<open>group('dice_num') or 1\<close> is 1 for the empty text; a group that
  is \<open>None\<close> or empty is false in \<open>if dice_match.group('drop_lowest')\<close>.
\<close>

definition priv_roll_dice :: "dice_match \<Rightarrow> rng \<Rightarrow> error + (DicePouch \<times> rng)" where
  "priv_roll_dice dice_match g =
     (case (if group_dice_num dice_match \<noteq> [] then py_int (group_dice_num dice_match) else Inr 1) of
        Inl e \<Rightarrow> Inl e
      | Inr dice_num \<Rightarrow>
          (case py_int (group_dice_type dice_match) of
             Inl e \<Rightarrow> Inl e
           | Inr dice_type \<Rightarrow>
               if dice_type \<le> 0 then Inl (InvalidDiceFacesError dice_type)
               else if dice_num < 0 then Inl (NegativeDiceCountError dice_num)
               else if dice_num > MAX_DICE then Inl (TooManyDiceError dice_num MAX_DICE)
               else
                 (case DicePouch_init dice_num dice_type g of
                    Inl e \<Rightarrow> Inl e
                  | Inr (pouch, g') \<Rightarrow>
                      (case group_drop_lowest dice_match of
                         None \<Rightarrow> Inr (pouch, g')
                       | Some drop_text \<Rightarrow>
                           if drop_text = [] then Inr (pouch, g')
                           else
                             (case py_int drop_text of
                                Inl e \<Rightarrow> Inl e
                              | Inr drop_n \<Rightarrow>
                                  if drop_n \<ge> 0 then
                                    (case drop_lowest pouch drop_n of
                                       Inl e \<Rightarrow> Inl e
                                     | Inr pouch' \<Rightarrow> Inr (pouch', g'))
                                  else Inl (UnableToDropDiceError drop_n dice_num))))))"

text \<open>\<open>[_roll_dice(dice_expr) for dice_expr in dice_expressions]\<close>: the first error ends it.\<close>

fun roll_all :: "dice_match list \<Rightarrow> rng \<Rightarrow> error + (DicePouch list \<times> rng)" where
  "roll_all [] g = Inr ([], g)"
| "roll_all (m # ms) g =
     (case priv_roll_dice m g of
        Inl e \<Rightarrow> Inl e
      | Inr (pouch, g1) \<Rightarrow>
          (case roll_all ms g1 of
             Inl e \<Rightarrow> Inl e
           | Inr (pouches, g2) \<Rightarrow> Inr (pouch # pouches, g2)))"

definition get_eval_str :: "DicePouch \<Rightarrow> string" where
  "get_eval_str dp = ''('' @ str_int (get_sum dp) @ '')''"

definition get_pretty_str :: "DicePouch \<Rightarrow> string" where
  "get_pretty_str dp =
     (if num dp \<le> 10 then get_simple_string dp
      else if get_number_of_faces dp \<le> 10 then get_compressed_string dp
      else ''(...)'')"

text \<open>
  \<open>template % tuple(args)\<close> for a template whose directives are \<open>%%\<close> and
  \<open>%s\<close>, the only ones \<open>arg_str\<close> can hold: too few or too many arguments raise
  \<open>TypeError\<close>, a lone \<open>%\<close> at the end raises \<open>ValueError\<close>. Any other directive
  is reported as \<open>ValueError\<close>.
\<close>

fun percent_format :: "string \<Rightarrow> string list \<Rightarrow> error + string" where
  "percent_format [] [] = Inr []"
| "percent_format [] (a # args) = Inl TypeError"
| "percent_format (c # cs) args =
     (if c \<noteq> CHR ''%'' then
        (case percent_format cs args of Inl e \<Rightarrow> Inl e | Inr r \<Rightarrow> Inr (c # r))
      else
        (case cs of
           [] \<Rightarrow> Inl ValueError
         | c' # cs' \<Rightarrow>
             if c' = CHR ''%'' then
               (case percent_format cs' args of Inl e \<Rightarrow> Inl e | Inr r \<Rightarrow> Inr (CHR ''%'' # r))
             else if c' = CHR ''s'' then
               (case args of
                  [] \<Rightarrow> Inl TypeError
                | a # args' \<Rightarrow>
                    (case percent_format cs' args' of Inl e \<Rightarrow> Inl e | Inr r \<Rightarrow> Inr (a @ r)))
             else Inl ValueError))"

text \<open>
  The command \<open>roll\<close>, up to the call of \<open>eval_equation\<close> (which is not part of
  these sources). It ends with a reply, with an exception that nothing catches, or
  with the texts and pouches handed on to the evaluation: \<open>arg_str_raw\<close>, the
  template \<open>arg_str\<close>, \<open>eval_str\<close>, \<open>pretty_str\<close> and \<open>dice\<close>.
\<close>

datatype roll_result =
    Replied string
  | Raised error
  | Rolled string string string string "DicePouch list" rng

definition roll :: "trigger \<Rightarrow> rng \<Rightarrow> roll_result" where
  "roll trg g =
     (case group2 trg of
        None \<Rightarrow> Replied ''No dice to roll.''
      | Some arg \<Rightarrow>
          if arg = [] then Replied ''No dice to roll.''
          else
            let arg_str_raw = strip (split_hash arg);
                arg_str = re_sub ''%s'' (escape_percent arg_str_raw);
                dice_expressions = finditer arg_str_raw
            in
              if dice_expressions = [] then Replied ''I couldn't find any valid dice expressions.''
              else
                (case roll_all dice_expressions g of
                   Inl err \<Rightarrow>
                     if is_DiceError err then Replied (get_error_message err) else Raised err
                 | Inr (pouches, g') \<Rightarrow>
                     (case percent_format arg_str (map get_eval_str pouches) of
                        Inl err \<Rightarrow> Raised err
                      | Inr eval_str \<Rightarrow>
                          (case percent_format arg_str (map get_pretty_str pouches) of
                             Inl err \<Rightarrow> Raised err
                           | Inr pretty_str \<Rightarrow>
                               Rolled arg_str_raw arg_str eval_str pretty_str pouches g'))))"

section \<open>Notions used to state the properties of a pouch\<close>

text \<open>The number of dice a dictionary of face-value groups holds: the sum of its counts.\<close>

definition count_sum :: "dict \<Rightarrow> int" where
  "count_sum d = sum_list (map snd d)"

text \<open>
  A dictionary of rolled dice with \<open>t\<close> faces is well formed when no face value is
  listed twice, every face value lies in \<open>1..t\<close> and every count is positive.
\<close>

definition faces_ok :: "int \<Rightarrow> dict \<Rightarrow> bool" where
  "faces_ok t d = (distinct (map fst d) \<and> (\<forall>(f, c) \<in> set d. 1 \<le> f \<and> f \<le> t \<and> 0 < c))"

text \<open>
  What \<open>drop_lowest(n)\<close> is meant to move: from the groups in ascending order of face
  value, whole groups while \<open>n\<close> lasts and a part of the next one.
\<close>

fun take_lowest :: "(int \<times> int) list \<Rightarrow> int \<Rightarrow> (int \<times> int) list" where
  "take_lowest [] n = []"
| "take_lowest ((i, c) # xs) n =
     (if n = 0 then [] else if n < c then [(i, n)] else (i, c) # take_lowest xs (n - c))"

section \<open>Properties of the scoreboard\<close>

lemma map_of_filter_val:
  "distinct (map fst xs) \<Longrightarrow>
   map_of (filter (\<lambda>(k, v). P v) xs) k =
     (case map_of xs k of None \<Rightarrow> None | Some v \<Rightarrow> if P v then Some v else None)"
proof (induction xs)
  case Nil
  then show ?case by simp
next
  case (Cons x xs)
  obtain k' v' where x: "x = (k', v')" by (cases x)
  from Cons.prems have nk: "k' \<notin> fst ` set xs" and d: "distinct (map fst xs)"
    by (auto simp: x)
  have none: "map_of xs k' = None"
    using nk by (simp add: map_of_eq_None_iff)
  show ?case
    using Cons.IH [OF d] none by (auto simp: x split: option.splits)
qed

lemma purge_expired_filter:
  "purge_expired clock db (Some now) = delete_where_set_at_less (now - WEEK_SECONDS) db"
  by (simp add: purge_expired_def execute_def autocommit_def Let_def)

lemma select_row_purge:
  "primary_key db \<Longrightarrow>
   select_row (purge_expired clock db (Some now)) c n =
     (case select_row db c n of
        None \<Rightarrow> None
      | Some (s, t) \<Rightarrow> if t < now - WEEK_SECONDS then None else Some (s, t))"
  unfolding select_row_def purge_expired_filter delete_where_set_at_less_def primary_key_def
  using map_of_filter_val [of db "\<lambda>(s, t). \<not> t < now - WEEK_SECONDS" "(c, n)"]
  by (auto split: option.splits)

lemma replace_into_not_committed:
  "replace_into db c n s t = (if sqlite_int s \<and> sqlite_int t then Inr db else Inl OverflowError)"
  by (simp add: replace_into_def execute_def autocommit_def)

text \<open>
  C1, as the code runs. \<open>update\<close> returns the stored score of a valid row and
  \<open>None\<close> otherwise, but the row it writes does not last: the \<open>REPLACE\<close> is
  rolled back, and the table left behind is the swept table, whatever the score. On the
  empty table, \<open>update(score=10, now=1000)\<close> returns \<open>None\<close> and the table stays
  empty, so that \<open>update(score=5, now=1010)\<close> and \<open>update(score=15, now=1020)\<close>
  return \<open>None\<close> again and store nothing. Over a stored row \<open>(10, 1000)\<close>,
  \<open>update(score=15, now=1020)\<close> returns 10 and the row stays \<open>(10, 1000)\<close>. A
  score of \<open>2^63\<close> raises \<open>OverflowError\<close>.
\<close>

theorem update_highscore_write_is_lost:
  "(update_highscore clock db room usr score (Some now) = Inl OverflowError
      \<or> (\<exists>prev. update_highscore clock db room usr score (Some now)
                  = Inr (prev, purge_expired clock db (Some now))))
   \<and> update_highscore clock [] ''#a'' ''bob'' 10 (Some 1000) = Inr (None, [])
   \<and> update_highscore clock [] ''#a'' ''bob'' 5 (Some 1010) = Inr (None, [])
   \<and> update_highscore clock [] ''#a'' ''bob'' 15 (Some 1020) = Inr (None, [])
   \<and> update_highscore clock [((''#a'', ''bob''), (10, 1000))] ''#a'' ''bob'' 15 (Some 1020)
         = Inr (Some 10, [((''#a'', ''bob''), (10, 1000))])
   \<and> update_highscore clock [] ''#a'' ''bob'' (2 ^ 63) (Some 1000) = Inl OverflowError"
proof -
  have a: "update_highscore clock db room usr score (Some now) = Inl OverflowError
      \<or> (\<exists>prev. update_highscore clock db room usr score (Some now)
                  = Inr (prev, purge_expired clock db (Some now)))"
    by (simp add: update_highscore_def replace_into_not_committed Let_def)
  have b: "\<And>s t. sqlite_int s \<Longrightarrow> sqlite_int t \<Longrightarrow>
             update_highscore clock [] ''#a'' ''bob'' s (Some t) = Inr (None, [])"
    by (simp add: update_highscore_def replace_into_not_committed purge_expired_filter
        delete_where_set_at_less_def select_row_def Let_def)
  have c: "update_highscore clock [((''#a'', ''bob''), (10, 1000))] ''#a'' ''bob'' 15 (Some 1020)
         = Inr (Some 10, [((''#a'', ''bob''), (10, 1000))])"
    by (simp add: update_highscore_def replace_into_not_committed purge_expired_filter
        delete_where_set_at_less_def select_row_def sqlite_int_def WEEK_SECONDS_def Let_def)
  have d: "update_highscore clock [] ''#a'' ''bob'' (2 ^ 63) (Some 1000) = Inl OverflowError"
    by (simp add: update_highscore_def replace_into_not_committed purge_expired_filter
        delete_where_set_at_less_def select_row_def sqlite_int_def Let_def)
  from a b [of 10 1000] b [of 5 1010] b [of 15 1020] c d show ?thesis
    by (simp add: sqlite_int_def)
qed

subsection \<open>The validity window\<close>

lemma set_sql_limit:
  "limit < 0 \<or> int (length xs) \<le> limit \<Longrightarrow> set (sql_limit limit xs) = set xs"
  by (auto simp: sql_limit_def)

lemma set_sql_limit_subset:
  "set (sql_limit limit xs) \<subseteq> set xs"
  by (auto simp: sql_limit_def dest: in_set_takeD)

lemma select_row_mem:
  "primary_key db \<Longrightarrow> (select_row db c n = Some r) = (((c, n), r) \<in> set db)"
  by (simp add: select_row_def primary_key_def)

lemma set_purge_expired:
  "set (purge_expired clock db (Some now)) = {(k, (s, t)). (k, (s, t)) \<in> set db \<and> \<not> t < now - WEEK_SECONDS}"
  by (auto simp: purge_expired_filter delete_where_set_at_less_def)

lemma length_purge_expired:
  "length (purge_expired clock db (Some now)) \<le> length db"
  by (simp add: purge_expired_filter delete_where_set_at_less_def)

lemma set_select_top_subset:
  "set (select_top db channel threshold limit) \<subseteq>
           {(n, s, t). ((channel, n), (s, t)) \<in> set db \<and> threshold \<le> t}"
proof -
  let ?rows = "filter (\<lambda>((channel', nick), (score, set_at)). channel' = channel \<and> set_at \<ge> threshold) db"
  let ?xs = "sort_key (\<lambda>(nick, score, set_at). (- score, set_at))
          (map (\<lambda>((channel', nick), (score, set_at)). (nick, score, set_at)) ?rows)"
  have "set (select_top db channel threshold limit) \<subseteq> set ?xs"
    unfolding select_top_def by (rule set_sql_limit_subset)
  also have "set ?xs = {(n, s, t). ((channel, n), (s, t)) \<in> set db \<and> threshold \<le> t}"
    by (auto simp: image_iff)
  finally show ?thesis .
qed

lemma set_select_top:
  assumes "limit < 0 \<or> int (length db) \<le> limit"
  shows "set (select_top db channel threshold limit) =
           {(n, s, t). ((channel, n), (s, t)) \<in> set db \<and> threshold \<le> t}"
proof -
  let ?rows = "filter (\<lambda>((channel', nick), (score, set_at)). channel' = channel \<and> set_at \<ge> threshold) db"
  let ?xs = "sort_key (\<lambda>(nick, score, set_at). (- score, set_at))
          (map (\<lambda>((channel', nick), (score, set_at)). (nick, score, set_at)) ?rows)"
  have "length ?xs \<le> length db" by simp
  with assms have "limit < 0 \<or> int (length ?xs) \<le> limit" by linarith
  then have "set (select_top db channel threshold limit) = set ?xs"
    unfolding select_top_def by (rule set_sql_limit)
  also have "\<dots> = {(n, s, t). ((channel, n), (s, t)) \<in> set db \<and> threshold \<le> t}"
    by (auto simp: image_iff)
  finally show ?thesis .
qed


text \<open>
  C2, as the code has it. A stored entry counts toward \<open>update\<close>'s previous
  score, toward the leaderboard (when \<open>LIMIT\<close> does not cut the list) and toward
  the personal lookup of \<open>my_highscore\<close> if and only if
  \<open>now - set_at \<le> 7 days\<close>: an entry that is exactly seven days old still counts.
  \<open>update\<close> returns that previous score for every score and time SQLite can store,
  and for every score that does not beat a valid entry; with any \<open>LIMIT\<close>, an entry
  on the leaderboard is a valid one.
\<close>

theorem validity_window_inclusive:
  assumes pk: "primary_key db"
    and row: "select_row db channel usr = Some (score, set_at)"
  shows
    "(update_highscore clock db channel usr score' (Some now) =
        (if (now - set_at \<le> 7 * 86400 \<longrightarrow> score < score')
            \<and> \<not> (sqlite_int score' \<and> sqlite_int now)
         then Inl OverflowError
         else Inr (if now - set_at \<le> 7 * 86400 then Some score else None,
                   purge_expired clock db (Some now))))
     \<and> ((limit < 0 \<or> int (length db) \<le> limit) \<longrightarrow>
          ((usr, score, set_at) \<in> set (fst (get_channel_highscores now db channel limit)))
            = (now - set_at \<le> 7 * 86400))
     \<and> ((usr, score, set_at) \<in> set (fst (get_channel_highscores now db channel limit))
          \<longrightarrow> now - set_at \<le> 7 * 86400)
     \<and> ((startswith (sender trg) ''#'' \<and> lower (sender trg) = channel \<and> nick trg = usr) \<longrightarrow>
          fst (my_highscore now db trg) =
            (if now - set_at \<le> 7 * 86400
             then Say (usr @ '': your weekly high is '' @ str_int score
                         @ '' ('' @ format_age (now - set_at) @ '' ago)'')
             else Say (usr @ '': you don't have a weekly high score yet. Roll!'')))"
proof -
  note sel = select_row_purge [OF pk, of _ now channel usr]
  have a: "update_highscore clock db channel usr score' (Some now) =
        (if (now - set_at \<le> 7 * 86400 \<longrightarrow> score < score')
            \<and> \<not> (sqlite_int score' \<and> sqlite_int now)
         then Inl OverflowError
         else Inr (if now - set_at \<le> 7 * 86400 then Some score else None,
                   purge_expired clock db (Some now)))"
    using sel [of clock] row
    by (auto simp: update_highscore_def replace_into_not_committed Let_def WEEK_SECONDS_def)
  have mem: "((channel, usr), (score, set_at)) \<in> set db"
    using row select_row_mem [OF pk] by simp
  have b: "((usr, score, set_at) \<in> set (fst (get_channel_highscores now db channel limit)))
            = (now - set_at \<le> 7 * 86400)"
    if lim: "limit < 0 \<or> int (length db) \<le> limit"
  proof -
    have "limit < 0 \<or> int (length (purge_expired now db (Some now))) \<le> limit"
      using lim length_purge_expired [of now db now] by linarith
    then show ?thesis
      using mem
      by (auto simp: get_channel_highscores_def Let_def set_select_top set_purge_expired
          WEEK_SECONDS_def)
  qed
  have b': "now - set_at \<le> 7 * 86400"
    if "(usr, score, set_at) \<in> set (fst (get_channel_highscores now db channel limit))"
    using that set_select_top_subset [of "purge_expired now db (Some now)" channel
        "now - WEEK_SECONDS" limit]
    by (auto simp: get_channel_highscores_def Let_def WEEK_SECONDS_def)
  have c: "fst (my_highscore now db trg) =
            (if now - set_at \<le> 7 * 86400
             then Say (usr @ '': your weekly high is '' @ str_int score
                         @ '' ('' @ format_age (now - set_at) @ '' ago)'')
             else Say (usr @ '': you don't have a weekly high score yet. Roll!''))"
    if "startswith (sender trg) ''#'' \<and> lower (sender trg) = channel \<and> nick trg = usr"
    using that sel [of now] row by (auto simp: my_highscore_def Let_def WEEK_SECONDS_def)
  from a b b' c show ?thesis by blast
qed

theorem validity_window_inclusive_witness:
  "primary_key [((''#a'', ''bob''), (10, 0))]
   \<and> select_row [((''#a'', ''bob''), (10, 0))] ''#a'' ''bob'' = Some (10, 0)
   \<and> int (length [((''#a'', ''bob''), (10 :: int, 0 :: int))]) \<le> 10
   \<and> startswith (sender \<lparr>sender = ''#A'', nick = ''bob'', group2 = None\<rparr>) ''#''
   \<and> lower (sender \<lparr>sender = ''#A'', nick = ''bob'', group2 = None\<rparr>) = ''#a''
   \<and> nick \<lparr>sender = ''#A'', nick = ''bob'', group2 = None\<rparr> = ''bob''
   \<and> sqlite_int 5 \<and> sqlite_int 604801
   \<and> update_highscore 0 [((''#a'', ''bob''), (10, 0))] ''#a'' ''bob'' 5 (Some 604801)
        = Inr (None, purge_expired 0 [((''#a'', ''bob''), (10, 0))] (Some 604801))
   \<and> (''bob'', 10, 0) \<notin> set (fst (get_channel_highscores 604801 [((''#a'', ''bob''), (10, 0))] ''#a'' 10))
   \<and> fst (my_highscore 604801 [((''#a'', ''bob''), (10, 0))]
            \<lparr>sender = ''#A'', nick = ''bob'', group2 = None\<rparr>) =
         Say ''bob: you don't have a weekly high score yet. Roll!''"
  using validity_window_inclusive [of "[((''#a'', ''bob''), (10, 0))]" "''#a''" "''bob''" 10 0 0 5
      604801 10 "\<lparr>sender = ''#A'', nick = ''bob'', group2 = None\<rparr>"]
  by (simp add: primary_key_def select_row_def startswith_def lower_def lower_char_def
      sqlite_int_def)

text \<open>
  An entry set at 0 and read at \<open>now = 7 * 86400\<close> has \<open>now - set_at\<close> not
  below seven days, and it counts in all three places.
\<close>

theorem validity_exactly_seven_days_counterexample:
  "\<not> ((604800 :: int) - 0 < 7 * 86400)
   \<and> update_highscore 0 [((''#a'', ''bob''), (10, 0))] ''#a'' ''bob'' 5 (Some 604800)
        = Inr (Some 10, [((''#a'', ''bob''), (10, 0))])
   \<and> (''bob'', 10, 0) \<in> set (fst (get_channel_highscores 604800 [((''#a'', ''bob''), (10, 0))] ''#a'' 10))
   \<and> fst (my_highscore 604800 [((''#a'', ''bob''), (10, 0))]
            \<lparr>sender = ''#a'', nick = ''bob'', group2 = None\<rparr>) =
         Say ''bob: your weekly high is 10 (7d ago)''"
  by (simp add: update_highscore_def get_channel_highscores_def my_highscore_def purge_expired_def
      execute_def autocommit_def
      delete_where_set_at_less_def select_row_def select_top_def sql_limit_def WEEK_SECONDS_def
      startswith_def lower_def lower_char_def format_age_def str_int_def digit_char_def Let_def)

section \<open>Properties of the dice notation\<close>

lemmas scan_defs = match_at_def match_drop_def signed_digits_def is_digit_def

text \<open>
  C9. The input \<open>-d6\<close> is accepted by the pattern with the count group \<open>-\<close>;
  \<open>_roll_dice\<close> raises \<open>ValueError\<close> on it, which is no \<open>DiceError\<close>, and
  \<open>roll\<close> lets it through instead of answering with one of its error messages.
\<close>

theorem minus_d6_raises_ValueError:
  "finditer ''-d6'' = [\<lparr>group_dice_num = ''-'', group_dice_type = ''6'', group_drop_lowest = None\<rparr>]
   \<and> priv_roll_dice \<lparr>group_dice_num = ''-'', group_dice_type = ''6'', group_drop_lowest = None\<rparr> g
        = Inl ValueError
   \<and> \<not> is_DiceError ValueError
   \<and> roll (trg\<lparr>group2 := Some ''-d6''\<rparr>) g = Raised ValueError"
proof -
  have f: "finditer ''-d6'' = [\<lparr>group_dice_num = ''-'', group_dice_type = ''6'', group_drop_lowest = None\<rparr>]"
    by (simp add: scan_defs)
  have p: "priv_roll_dice \<lparr>group_dice_num = ''-'', group_dice_type = ''6'', group_drop_lowest = None\<rparr> g
        = Inl ValueError"
    by (simp add: priv_roll_dice_def py_int_def)
  have s: "strip (split_hash ''-d6'') = ''-d6''"
    by (simp add: strip_def split_hash_def is_space_def)
  have r: "roll (trg\<lparr>group2 := Some ''-d6''\<rparr>) g = Raised ValueError"
    by (simp add: roll_def s f p Let_def del: finditer.simps)
  from f p r show ?thesis by simp
qed


lemma split_hash_append:
  "CHR ''#'' \<notin> set a \<Longrightarrow> split_hash (a @ CHR ''#'' # b) = a"
  by (induction a) (auto simp: split_hash_def)

lemma split_hash_no_hash:
  "CHR ''#'' \<notin> set a \<Longrightarrow> split_hash a = a"
  by (induction a) (auto simp: split_hash_def)

text \<open>
  C7, as the code has it. For an input \<open>a # b\<close> whose first \<open>#\<close> stands after
  \<open>a\<close>, the text from the \<open>#\<close> on is discarded: \<open>roll\<close> does what it does on
  \<open>a\<close> alone, and answers that it found no dice expression when \<open>a\<close> is empty.
\<close>

theorem text_after_hash_is_discarded:
  assumes a: "CHR ''#'' \<notin> set a"
  shows "split_hash (a @ CHR ''#'' # b) = a
     \<and> (a \<noteq> [] \<longrightarrow>
          roll (trg\<lparr>group2 := Some (a @ CHR ''#'' # b)\<rparr>) g = roll (trg\<lparr>group2 := Some a\<rparr>) g)
     \<and> (a = [] \<longrightarrow>
          roll (trg\<lparr>group2 := Some (a @ CHR ''#'' # b)\<rparr>) g
            = Replied ''I couldn't find any valid dice expressions.'')"
proof -
  have e: "strip [] = []" by (simp add: strip_def)
  have h: "split_hash (a @ CHR ''#'' # b) = a" by (rule split_hash_append [OF a])
  have n: "split_hash a = a" by (rule split_hash_no_hash [OF a])
  have r1: "roll (trg\<lparr>group2 := Some (a @ CHR ''#'' # b)\<rparr>) g = roll (trg\<lparr>group2 := Some a\<rparr>) g"
    if "a \<noteq> []"
    using that by (simp add: roll_def Let_def h n del: finditer.simps re_sub.simps)
  have r2: "roll (trg\<lparr>group2 := Some (a @ CHR ''#'' # b)\<rparr>) g
            = Replied ''I couldn't find any valid dice expressions.''"
    if "a = []"
    using h that by (simp add: roll_def Let_def e del: re_sub.simps)
  from h r1 r2 show ?thesis by blast
qed

theorem text_after_hash_is_discarded_witness:
  "CHR ''#'' \<notin> set ''2d6'' \<and> ''2d6'' \<noteq> []
   \<and> split_hash (''2d6'' @ CHR ''#'' # ''1d4'') = ''2d6''
   \<and> roll \<lparr>sender = ''#a'', nick = ''bob'', group2 = Some (''2d6'' @ CHR ''#'' # ''1d4'')\<rparr> (\<lambda>i. 0)
       = roll \<lparr>sender = ''#a'', nick = ''bob'', group2 = Some ''2d6''\<rparr> (\<lambda>i. 0)"
  using text_after_hash_is_discarded [of "''2d6''" "''1d4''"
      "\<lparr>sender = ''#a'', nick = ''bob'', group2 = None\<rparr>" "\<lambda>i. 0"]
  by simp

lemmas pouch_defs = DicePouch_init_def roll_dice_def randint_def setdefault_def
  get_eval_str_def get_pretty_str_def get_sum_def get_simple_string_def simple_groups_def
  str_int_def digit_char_def

text \<open>
  On \<open>2d6#1d4\<close> the dice rolled are the two six-sided dice before the \<open>#\<close>; the
  token after it, which the pattern would match, is not rolled.
\<close>

theorem text_before_hash_is_rolled_counterexample:
  "roll \<lparr>sender = ''#a'', nick = ''bob'', group2 = Some ''2d6#1d4''\<rparr> (\<lambda>i. 0)
     = Rolled ''2d6'' ''%s'' ''(2)'' ''(1+1)''
         [\<lparr>num = 2, type = 6, dice = [(1, 2)], dropped = []\<rparr>] (\<lambda>i. 0)
   \<and> finditer ''1d4''
       = [\<lparr>group_dice_num = ''1'', group_dice_type = ''4'', group_drop_lowest = None\<rparr>]"
proof -
  have s: "strip (split_hash ''2d6#1d4'') = ''2d6''"
    by (simp add: strip_def split_hash_def is_space_def)
  have f: "finditer ''2d6'' = [\<lparr>group_dice_num = ''2'', group_dice_type = ''6'', group_drop_lowest = None\<rparr>]"
    by (simp add: scan_defs)
  have t: "re_sub ''%s'' (escape_percent ''2d6'') = ''%s''"
    by (simp add: escape_percent_def scan_defs)
  have two: "roll_loop 2 6 [] (\<lambda>i. 0) = Inr ([(1, 2)], \<lambda>i. 0)"
    unfolding numeral_2_eq_2 by (simp add: randint_def setdefault_def)
  have p: "priv_roll_dice \<lparr>group_dice_num = ''2'', group_dice_type = ''6'', group_drop_lowest = None\<rparr> (\<lambda>i. 0)
        = Inr (\<lparr>num = 2, type = 6, dice = [(1, 2)], dropped = []\<rparr>, \<lambda>i. 0)"
    by (simp add: priv_roll_dice_def py_int_def decimal_def digit_value_def is_digit_def
        MAX_DICE_def pouch_defs two)
  have r: "roll \<lparr>sender = ''#a'', nick = ''bob'', group2 = Some ''2d6#1d4''\<rparr> (\<lambda>i. 0)
     = Rolled ''2d6'' ''%s'' ''(2)'' ''(1+1)''
         [\<lparr>num = 2, type = 6, dice = [(1, 2)], dropped = []\<rparr>] (\<lambda>i. 0)"
    by (simp add: roll_def Let_def s f t p pouch_defs numeral_2_eq_2
        del: finditer.simps re_sub.simps)
  have g: "finditer ''1d4''
       = [\<lparr>group_dice_num = ''1'', group_dice_type = ''4'', group_drop_lowest = None\<rparr>]"
    by (simp add: scan_defs)
  from r g show ?thesis by simp
qed

section \<open>Properties of the dice pouch\<close>

lemma count_sum_simps [simp]:
  "count_sum [] = 0"
  "count_sum (x # xs) = snd x + count_sum xs"
  "count_sum (xs @ ys) = count_sum xs + count_sum ys"
  by (simp_all add: count_sum_def)

lemma update_absent:
  "map_of d k = None \<Longrightarrow> AList.update k v d = d @ [(k, v)]"
  by (induction d) (auto split: if_splits)

lemma update_present:
  "map_of d k = Some c \<Longrightarrow> distinct (map fst d) \<Longrightarrow>
   AList.update k v d = map (\<lambda>(f, c'). (f, if f = k then v else c')) d"
proof (induction d)
  case Nil
  then show ?case by simp
next
  case (Cons x d)
  obtain f c' where x: "x = (f, c')" by (cases x)
  show ?case
  proof (cases "f = k")
    case True
    with Cons.prems have "k \<notin> fst ` set d" by (simp add: x)
    then have "map (\<lambda>(f, c'). (f, if f = k then v else c')) d = d"
      by (induction d) auto
    with True show ?thesis by (simp add: x)
  next
    case False
    with Cons show ?thesis by (simp add: x)
  qed
qed

lemma count_sum_update:
  "count_sum (AList.update k v d) = count_sum d - dict_get d k 0 + v"
  by (induction d) (auto simp: dict_get_def)

lemma set_update_subset:
  "set (AList.update k v d) \<subseteq> insert (k, v) (set d)"
  by (induction d) auto

lemma map_of_mem:
  "distinct (map fst d) \<Longrightarrow> (map_of d k = Some c) = ((k, c) \<in> set d)"
  by simp

lemma dict_get_absent:
  "k \<notin> fst ` set d \<Longrightarrow> dict_get d k v = v"
proof -
  assume "k \<notin> fst ` set d"
  then have "map_of d k = None" by (simp add: map_of_eq_None_iff)
  then show ?thesis by (simp add: dict_get_def)
qed

lemma update_append_absent:
  "map_of d k = None \<Longrightarrow> AList.update k v (d @ [(k, w)]) = d @ [(k, v)]"
  by (induction d) (auto split: if_splits)

lemma step_setdefault:
  "(case setdefault k 0 d of (count, d1) \<Rightarrow> F (AList.update k (count + 1) d1))
     = F (AList.update k (dict_get d k 0 + 1) d)"
  by (auto simp: setdefault_def dict_get_def update_absent update_append_absent split: option.splits)

lemma count_sum_insort:
  "count_sum (insort_key f x xs) = snd x + count_sum xs"
  by (induction xs) auto

lemma count_sum_sort:
  "count_sum (sort_key f xs) = count_sum xs"
  by (induction xs) (auto simp: count_sum_insort)


lemma randint_ok:
  "a \<le> b \<Longrightarrow> \<exists>n g'. randint a b g = Inr (n, g') \<and> a \<le> n \<and> n \<le> b"
proof -
  assume ab: "a \<le> b"
  have "int (g 0 mod nat (b - a + 1)) < int (nat (b - a + 1))"
    using ab by (intro iffD2 [OF of_nat_less_iff] mod_less_divisor) simp
  then have "a + int (g 0 mod nat (b - a + 1)) \<le> b" using ab by simp
  then show ?thesis using ab by (simp add: randint_def)
qed

lemma faces_ok_bump:
  assumes ok: "faces_ok t d" and n: "1 \<le> n" "n \<le> t"
  shows "faces_ok t (AList.update n (dict_get d n 0 + 1) d)"
proof -
  have pos: "0 \<le> dict_get d n 0"
    using ok by (auto simp: dict_get_def faces_ok_def split: option.splits dest!: map_of_SomeD)
  have "\<forall>(f, c) \<in> insert (n, dict_get d n 0 + 1) (set d). 1 \<le> f \<and> f \<le> t \<and> 0 < c"
    using ok n pos by (auto simp: faces_ok_def)
  then have "\<forall>(f, c) \<in> set (AList.update n (dict_get d n 0 + 1) d). 1 \<le> f \<and> f \<le> t \<and> 0 < c"
    using set_update_subset [of n "dict_get d n 0 + 1" d] by blast
  then show ?thesis using ok by (simp add: faces_ok_def distinct_update)
qed

lemma roll_loop_ok:
  assumes t: "1 \<le> t"
  shows "faces_ok t d \<Longrightarrow>
    \<exists>d' g'. roll_loop k t d g = Inr (d', g') \<and> faces_ok t d' \<and> count_sum d' = count_sum d + int k"
proof (induction k arbitrary: d g)
  case 0
  then show ?case by simp
next
  case (Suc k)
  from randint_ok [OF t, of g] obtain n g1 where
    r: "randint 1 t g = Inr (n, g1)" and n: "1 \<le> n" "n \<le> t" by blast
  let ?d1 = "AList.update n (dict_get d n 0 + 1) d"
  have ok1: "faces_ok t ?d1" by (rule faces_ok_bump [OF Suc.prems n])
  from Suc.IH [OF ok1, of g1] obtain d' g' where
    l: "roll_loop k t ?d1 g1 = Inr (d', g')" and ok': "faces_ok t d'"
    and s: "count_sum d' = count_sum ?d1 + int k" by blast
  have "roll_loop (Suc k) t d g = Inr (d', g')"
    using r l step_setdefault [where k = n and d = d and F = "\<lambda>x. roll_loop k t x g1"] by simp
  moreover have "count_sum d' = count_sum d + int (Suc k)"
    using s by (simp add: count_sum_update)
  ultimately show ?case using ok' by blast
qed

lemma DicePouch_init_ok:
  assumes "0 \<le> n" "1 \<le> t"
  shows "\<exists>p g'. DicePouch_init n t g = Inr (p, g') \<and> num p = n \<and> type p = t \<and> dropped p = []
           \<and> faces_ok t (dice p) \<and> count_sum (dice p) = n"
proof -
  have "faces_ok t []" by (simp add: faces_ok_def)
  from roll_loop_ok [OF assms(2) this, of "nat n" g] obtain d' g' where
    "roll_loop (nat n) t [] g = Inr (d', g')" "faces_ok t d'" "count_sum d' = int (nat n)"
    by auto
  then show ?thesis using assms(1) by (simp add: DicePouch_init_def roll_dice_def)
qed


lemma take_lowest_keys:
  "fst ` set (take_lowest xs n) \<subseteq> fst ` set xs"
proof (induction xs arbitrary: n)
  case Nil
  then show ?case by simp
next
  case (Cons x xs)
  obtain i c where x: "x = (i, c)" by (cases x)
  show ?case using Cons.IH [of "n - c"] by (auto simp: x)
qed

lemma dict_get_Cons:
  "dict_get ((i, c) # xs) f v = (if f = i then c else dict_get xs f v)"
  by (simp add: dict_get_def)

lemma dict_get_Nil [simp]: "dict_get [] f v = v"
  by (simp add: dict_get_def)

lemma drop_loop_closed:
  assumes "distinct (map fst d)" "set xs \<subseteq> set d" "distinct (map fst xs)"
    "fst ` set dr \<inter> fst ` set xs = {}"
  shows "drop_loop xs d dr n =
    Inr (map (\<lambda>(f, c). (f, c - dict_get (take_lowest xs n) f 0)) d, dr @ take_lowest xs n)"
  using assms
proof (induction xs arbitrary: d dr n)
  case Nil
  have "map (\<lambda>(f, c). (f, c - dict_get [] f 0)) d = d"
    by (induction d) auto
  then show ?case by simp
next
  case (Cons x xs)
  obtain i c where x: "x = (i, c)" by (cases x)
  from Cons.prems have mem: "(i, c) \<in> set d" and dd: "distinct (map fst d)"
    and ixs: "i \<notin> fst ` set xs" and dxs: "distinct (map fst xs)"
    and idr: "i \<notin> fst ` set dr" and sub: "set xs \<subseteq> set d"
    and disj: "fst ` set dr \<inter> fst ` set xs = {}"
    by (auto simp: x)
  have look: "map_of d i = Some c" using mem dd by simp
  have nodr: "map_of dr i = None" using idr by (simp add: map_of_eq_None_iff)
  have uniq: "\<And>c'. (i, c') \<in> set d \<Longrightarrow> c' = c"
    using look dd by simp
  show ?case
  proof (cases "n = 0")
    case True
    have "map (\<lambda>(f, c). (f, c - dict_get [] f 0)) d = d"
      by (induction d) auto
    with True look show ?thesis by (simp add: x)
  next
    case n0: False
    show ?thesis
    proof (cases "n < c")
      case True
      have "AList.update i (c - n) d = map (\<lambda>(f, c'). (f, if f = i then c - n else c')) d"
        by (rule update_present [OF look dd])
      also have "\<dots> = map (\<lambda>(f, c'). (f, c' - dict_get [(i, n)] f 0)) d"
        using uniq by (intro map_cong) (auto simp: dict_get_Cons)
      finally have 1: "AList.update i (c - n) d = map (\<lambda>(f, c'). (f, c' - dict_get [(i, n)] f 0)) d" .
      have 2: "AList.update i n dr = dr @ [(i, n)]" by (rule update_absent [OF nodr])
      show ?thesis using n0 True look 1 2 by (simp add: x)
    next
      case False
      let ?d1 = "AList.update i 0 d"
      let ?dr1 = "AList.update i c dr"
      let ?tl = "take_lowest xs (n - c)"
      have d1: "?d1 = map (\<lambda>(f, c'). (f, if f = i then 0 else c')) d"
        by (rule update_present [OF look dd])
      have dr1: "?dr1 = dr @ [(i, c)]" by (rule update_absent [OF nodr])
      have p1: "distinct (map fst ?d1)" using dd by (rule distinct_update)
      have p2: "set xs \<subseteq> set ?d1"
      proof
        fix y assume y: "y \<in> set xs"
        then have "fst y \<noteq> i" using ixs by force
        moreover have "y \<in> set d" using y sub by blast
        ultimately show "y \<in> set ?d1"
          unfolding d1 by (cases y) (force simp: image_iff)
      qed
      have p4: "fst ` set ?dr1 \<inter> fst ` set xs = {}"
        using disj ixs by (auto simp: dr1)
      have itl: "dict_get ?tl i 0 = 0"
        using take_lowest_keys [of xs "n - c"] ixs by (intro dict_get_absent) blast
      have "drop_loop xs ?d1 ?dr1 (n - c) =
         Inr (map (\<lambda>(f, c). (f, c - dict_get ?tl f 0)) ?d1, ?dr1 @ ?tl)"
        by (rule Cons.IH [OF p1 p2 dxs p4])
      moreover have "map (\<lambda>(f, c). (f, c - dict_get ?tl f 0)) ?d1
          = map (\<lambda>(f, c'). (f, c' - dict_get ((i, c) # ?tl) f 0)) d"
        unfolding d1 map_map
        using uniq itl by (intro map_cong) (auto simp: dict_get_Cons)
      ultimately show ?thesis using n0 False look by (simp add: x dr1)
    qed
  qed
qed


lemma drop_loop_total:
  assumes "distinct (map fst xs)" "fst ` set dr \<inter> fst ` set xs = {}"
    "drop_loop xs d dr n = Inr (d', dr')"
  shows "count_sum d' + count_sum dr' = count_sum d + count_sum dr"
  using assms
proof (induction xs arbitrary: d dr n)
  case Nil
  then show ?case by simp
next
  case (Cons x xs)
  obtain i c where x: "x = (i, c)" by (cases x)
  from Cons.prems obtain cnt where look: "map_of d i = Some cnt"
    by (cases "map_of d i") (auto simp: x)
  from Cons.prems have idr: "i \<notin> fst ` set dr" and ixs: "i \<notin> fst ` set xs"
    and dxs: "distinct (map fst xs)" and disj: "fst ` set dr \<inter> fst ` set xs = {}"
    by (auto simp: x)
  have gd: "dict_get d i 0 = cnt" using look by (simp add: dict_get_def)
  have gdr: "dict_get dr i 0 = 0" using idr by (rule dict_get_absent)
  show ?case
  proof (cases "n = 0")
    case True
    with Cons.prems look show ?thesis by (simp add: x)
  next
    case n0: False
    show ?thesis
    proof (cases "n < cnt")
      case True
      with Cons.prems look n0 have "d' = AList.update i (cnt - n) d" "dr' = AList.update i n dr"
        by (simp_all add: x)
      then show ?thesis by (simp add: count_sum_update gd gdr)
    next
      case False
      with Cons.prems look n0 have
        rec: "drop_loop xs (AList.update i 0 d) (AList.update i cnt dr) (n - cnt) = Inr (d', dr')"
        by (simp add: x)
      have "fst ` set (AList.update i cnt dr) \<inter> fst ` set xs = {}"
        using disj ixs by (auto simp: dom_update)
      from Cons.IH [OF dxs this rec] show ?thesis
        by (simp add: count_sum_update gd gdr)
    qed
  qed
qed

lemma uniq_entry:
  "distinct (map fst d) \<Longrightarrow> (k, a) \<in> set d \<Longrightarrow> (k, b) \<in> set d \<Longrightarrow> a = b"
  by (metis map_of_is_SomeI option.inject)

lemma drop_cleanup_filter:
  "distinct (map fst d) \<Longrightarrow>
   drop_cleanup items d = filter (\<lambda>(f, c). \<not> (c = 0 \<and> f \<in> fst ` set items)) d"
proof (induction items arbitrary: d)
  case Nil
  then show ?case by simp
next
  case (Cons x items)
  obtain i cnt where x: "x = (i, cnt)" by (cases x)
  let ?P = "\<lambda>(f, c). \<not> (c = (0::int) \<and> f \<in> fst ` set items)"
  let ?Q = "\<lambda>(f, c). \<not> (c = (0::int) \<and> f \<in> fst ` set (x # items))"
  have cond: "(dict_get d i 0 = 0 \<and> dict_contains d i) = ((i, 0) \<in> set d)"
    using Cons.prems
    by (auto simp: dict_get_def dict_contains_def split: option.splits dest: uniq_entry map_of_SomeD)
  have step: "drop_cleanup (x # items) d =
      drop_cleanup items (if (i, 0) \<in> set d then AList.delete i d else d)"
    unfolding x drop_cleanup.simps cond ..
  show ?case
  proof (cases "(i, 0) \<in> set d")
    case True
    then have uniq: "\<And>c. (i, c) \<in> set d \<Longrightarrow> c = 0"
      using Cons.prems by (metis map_of_is_SomeI option.inject)
    have "distinct (map fst (AList.delete i d))"
      using Cons.prems by (rule distinct_delete)
    then have "drop_cleanup items (AList.delete i d) = filter ?P (AList.delete i d)"
      by (rule Cons.IH)
    also have "\<dots> = filter ?Q d"
      unfolding AList.delete_eq filter_filter
      using uniq by (intro filter_cong) (auto simp: x)
    finally show ?thesis using True by (simp only: step if_True)
  next
    case False
    have "drop_cleanup items d = filter ?P d" using Cons.prems by (rule Cons.IH)
    also have "\<dots> = filter ?Q d"
      using False by (intro filter_cong) (auto simp: x)
    finally show ?thesis using False by (simp only: step if_False)
  qed
qed

lemma count_sum_filter_zero:
  "count_sum (filter (\<lambda>(f, c). \<not> (c = 0 \<and> P f)) d) = count_sum d"
  by (induction d) auto

lemma take_lowest_sum:
  "0 \<le> n \<Longrightarrow> \<forall>(f, c) \<in> set xs. 0 < c \<Longrightarrow> count_sum (take_lowest xs n) = min n (count_sum xs)"
proof (induction xs arbitrary: n)
  case Nil
  then show ?case by simp
next
  case (Cons x xs)
  obtain i c where x: "x = (i, c)" by (cases x)
  from Cons.prems have c: "0 < c" and pos: "\<forall>(f, c) \<in> set xs. 0 < c" by (auto simp: x)
  have nonneg: "0 \<le> count_sum xs" using pos by (induction xs) auto
  show ?case
  proof (cases "n < c")
    case True
    with Cons.prems nonneg show ?thesis by (simp add: x)
  next
    case False
    then have "0 \<le> n - c" by simp
    from Cons.IH [OF this pos] False c show ?thesis by (simp add: x)
  qed
qed

lemma take_lowest_all:
  "\<forall>(f, c) \<in> set xs. 0 < c \<Longrightarrow> count_sum xs \<le> n \<Longrightarrow> take_lowest xs n = xs"
proof (induction xs arbitrary: n)
  case Nil
  then show ?case by simp
next
  case (Cons x xs)
  obtain i c where x: "x = (i, c)" by (cases x)
  from Cons.prems have c: "0 < c" and pos: "\<forall>(f, c) \<in> set xs. 0 < c" by (auto simp: x)
  have nonneg: "0 \<le> count_sum xs" using pos by (induction xs) auto
  from Cons.prems have le: "count_sum xs \<le> n - c" by (simp add: x)
  from Cons.IH [OF pos le] c nonneg le show ?case by (simp add: x)
qed

lemma take_lowest_entries:
  "0 \<le> n \<Longrightarrow> \<forall>(f, c) \<in> set xs. 0 < c \<Longrightarrow> (f, m) \<in> set (take_lowest xs n) \<Longrightarrow>
   \<exists>c. (f, c) \<in> set xs \<and> 0 < m \<and> m \<le> c"
proof (induction xs arbitrary: n)
  case Nil
  then show ?case by simp
next
  case (Cons x xs)
  obtain i c where x: "x = (i, c)" by (cases x)
  from Cons.prems have c: "0 < c" and pos: "\<forall>(f, c) \<in> set xs. 0 < c" by (auto simp: x)
  show ?case
  proof (cases "n = 0 \<or> n < c")
    case True
    with Cons.prems c show ?thesis by (auto simp: x split: if_splits)
  next
    case False
    then have n: "0 \<le> n - c" by simp
    from False Cons.prems have "(f, m) = (i, c) \<or> (f, m) \<in> set (take_lowest xs (n - c))"
      by (auto simp: x)
    then show ?thesis
    proof
      assume "(f, m) = (i, c)"
      with c show ?thesis by (auto simp: x)
    next
      assume "(f, m) \<in> set (take_lowest xs (n - c))"
      from Cons.IH [OF n pos this] show ?thesis by auto
    qed
  qed
qed

lemma take_lowest_distinct:
  "distinct (map fst xs) \<Longrightarrow> distinct (map fst (take_lowest xs n))"
proof (induction xs arbitrary: n)
  case Nil
  then show ?case by simp
next
  case (Cons x xs)
  obtain i c where x: "x = (i, c)" by (cases x)
  from Cons.prems have ixs: "i \<notin> fst ` set xs" and dxs: "distinct (map fst xs)"
    by (auto simp: x)
  have "i \<notin> fst ` set (take_lowest xs (n - c))"
    using take_lowest_keys [of xs "n - c"] ixs by blast
  with Cons.IH [OF dxs, of "n - c"] show ?case by (simp add: x)
qed

lemma take_lowest_order:
  "0 \<le> n \<Longrightarrow> \<forall>(f, c) \<in> set xs. 0 < c \<Longrightarrow> sorted (map fst xs) \<Longrightarrow> distinct (map fst xs) \<Longrightarrow>
   f \<in> fst ` set (take_lowest xs n) \<Longrightarrow> (g, c) \<in> set xs \<Longrightarrow>
   dict_get (take_lowest xs n) g 0 < c \<Longrightarrow> f \<le> g"
proof (induction xs arbitrary: n)
  case Nil
  then show ?case by simp
next
  case (Cons x xs)
  obtain i c0 where x: "x = (i, c0)" by (cases x)
  from Cons.prems have c0: "0 < c0" and pos: "\<forall>(f, c) \<in> set xs. 0 < c"
    and srt: "sorted (map fst xs)" and dxs: "distinct (map fst xs)"
    and ixs: "i \<notin> fst ` set xs" and low: "\<forall>k \<in> fst ` set xs. i \<le> k"
    by (auto simp: x)
  have ig: "i \<le> g" using Cons.prems(6) low by (force simp: x)
  show ?case
  proof (cases "n = 0 \<or> n < c0")
    case True
    with Cons.prems(5) have "f = i" by (auto simp: x split: if_splits)
    with ig show ?thesis by simp
  next
    case False
    then have n: "0 \<le> n - c0" and tl: "take_lowest (x # xs) n = (i, c0) # take_lowest xs (n - c0)"
      by (simp_all add: x)
    have gi: "g \<noteq> i"
    proof
      assume "g = i"
      with Cons.prems(6) ixs have "c = c0" by (force simp: x)
      with Cons.prems(7) \<open>g = i\<close> show False by (simp add: tl dict_get_Cons)
    qed
    with Cons.prems(6) have gxs: "(g, c) \<in> set xs" by (simp add: x)
    from Cons.prems(7) gi have less: "dict_get (take_lowest xs (n - c0)) g 0 < c"
      by (simp add: tl dict_get_Cons)
    from Cons.prems(5) have "f = i \<or> f \<in> fst ` set (take_lowest xs (n - c0))"
      by (auto simp: tl)
    then show ?thesis
    proof
      assume "f = i" with ig show ?thesis by simp
    next
      assume "f \<in> fst ` set (take_lowest xs (n - c0))"
      from Cons.IH [OF n pos srt dxs this gxs less] show ?thesis .
    qed
  qed
qed


lemma map_of_filter_distinct:
  assumes keys: "distinct (map fst xs)"
  shows "map_of (filter P xs) k =
     Option.bind (map_of xs k) (\<lambda>v. if P (k, v) then Some v else None)"
  using keys
proof (induction xs)
  case Nil
  then show ?case by simp
next
  case (Cons x xs)
  obtain k' v' where x: "x = (k', v')" by (cases x)
  from Cons.prems have nk: "k' \<notin> fst ` set xs" and d: "distinct (map fst xs)"
    by (auto simp: x)
  have none: "map_of xs k' = None"
    using nk by (simp add: map_of_eq_None_iff)
  show ?case
    using Cons.IH [OF d] none by (auto simp: x)
qed

lemma map_of_map_entry:
  "map_of (map (\<lambda>(f, c). (f, h f c)) d) k = map_option (h k) (map_of d k)"
  by (induction d) auto

lemma faces_ok_sorted:
  assumes "faces_ok t d"
  shows "set (sort_key fst d) = set d" "distinct (map fst (sort_key fst d))"
    "sorted (map fst (sort_key fst d))" "\<forall>(f, c) \<in> set (sort_key fst d). 0 < c"
    "count_sum (sort_key fst d) = count_sum d"
proof -
  show s: "set (sort_key fst d) = set d" by simp
  show "distinct (map fst (sort_key fst d))"
    using assms by (simp add: faces_ok_def distinct_map)
  show "sorted (map fst (sort_key fst d))" by (rule sorted_sort_key)
  show "\<forall>(f, c) \<in> set (sort_key fst d). 0 < c"
    using assms unfolding s by (auto simp: faces_ok_def)
  show "count_sum (sort_key fst d) = count_sum d" by (rule count_sum_sort)
qed


lemma map_fst_entry:
  "map fst (map (\<lambda>(f, c). (f, h f c)) d) = map fst d"
  by (induction d) auto

lemma drop_lowest_closed:
  assumes ok: "faces_ok t (dice p)" and dr: "dropped p = []"
  shows "drop_lowest p n =
    Inr (p\<lparr>dice :=
             filter (\<lambda>(f, c). \<not> (c = 0 \<and> f \<in> fst ` set (take_lowest (sort_key fst (dice p)) n)))
               (map (\<lambda>(f, c). (f, c - dict_get (take_lowest (sort_key fst (dice p)) n) f 0)) (dice p)),
           dropped := take_lowest (sort_key fst (dice p)) n\<rparr>)"
proof -
  let ?xs = "sort_key fst (dice p)"
  let ?tl = "take_lowest ?xs n"
  let ?d1 = "map (\<lambda>(f, c). (f, c - dict_get ?tl f 0)) (dice p)"
  have dd: "distinct (map fst (dice p))" using ok by (simp add: faces_ok_def)
  note srt = faces_ok_sorted [OF ok]
  have loop: "drop_loop ?xs (dice p) [] n = Inr (?d1, [] @ ?tl)"
    by (rule drop_loop_closed [OF dd _ srt(2)]) (simp_all add: srt(1))
  have "distinct (map fst ?d1)" using dd by (simp only: map_fst_entry)
  then have "drop_cleanup ?tl ?d1 = filter (\<lambda>(f, c). \<not> (c = 0 \<and> f \<in> fst ` set ?tl)) ?d1"
    by (rule drop_cleanup_filter)
  then show ?thesis
    using loop by (simp add: drop_lowest_def dr Let_def)
qed

lemma drop_lowest_facts:
  assumes ok: "faces_ok t (dice p)" and dr: "dropped p = []" and n: "0 \<le> n"
  shows "\<exists>p'. drop_lowest p n = Inr p' \<and> num p' = num p \<and> type p' = type p
      \<and> faces_ok t (dice p') \<and> faces_ok t (dropped p')
      \<and> count_sum (dropped p') = min n (count_sum (dice p))
      \<and> count_sum (dice p') + count_sum (dropped p') = count_sum (dice p)
      \<and> (\<forall>f \<in> fst ` set (dropped p'). \<forall>g \<in> fst ` set (dice p'). f \<le> g)
      \<and> (\<forall>f. dict_get (dice p') f 0 + dict_get (dropped p') f 0 = dict_get (dice p) f 0)
      \<and> (count_sum (dice p) \<le> n \<longrightarrow> dice p' = [] \<and> dropped p' = sort_key fst (dice p))"
proof -
  define d where "d = dice p"
  define xs where "xs = sort_key fst d"
  define tl where "tl = take_lowest xs n"
  define d1 where "d1 = map (\<lambda>(f, c). (f, c - dict_get tl f 0)) d"
  define kept where "kept = filter (\<lambda>(f, c). \<not> (c = 0 \<and> f \<in> fst ` set tl)) d1"
  define p' where "p' = p\<lparr>dice := kept, dropped := tl\<rparr>"
  have run: "drop_lowest p n = Inr p'"
    unfolding p'_def kept_def d1_def tl_def xs_def d_def by (rule drop_lowest_closed [OF ok dr])
  have sel: "dice p' = kept" "dropped p' = tl" "num p' = num p" "type p' = type p"
    by (simp_all add: p'_def)
  have okd: "faces_ok t d" using ok by (simp add: d_def)
  have dd: "distinct (map fst d)" using okd by (simp add: faces_ok_def)
  have rng: "\<And>f c. (f, c) \<in> set d \<Longrightarrow> 1 \<le> f \<and> f \<le> t \<and> 0 < c"
    using okd by (auto simp: faces_ok_def)
  have sx: "set xs = set d" and dxs: "distinct (map fst xs)" and srt: "sorted (map fst xs)"
    and pxs: "\<forall>(f, c) \<in> set xs. 0 < c" and cxs: "count_sum xs = count_sum d"
    using faces_ok_sorted [OF okd] by (simp_all add: xs_def)
  have dtl: "distinct (map fst tl)"
    unfolding tl_def by (rule take_lowest_distinct [OF dxs])
  have ktl: "fst ` set tl \<subseteq> fst ` set d"
    using take_lowest_keys [of xs n] sx by (simp add: tl_def)
  have ent: "\<exists>c. (f, c) \<in> set d \<and> 0 < m \<and> m \<le> c" if "(f, m) \<in> set tl" for f m
    using take_lowest_entries [OF n pxs, of f m] that sx by (simp add: tl_def)
  \<comment> \<open>what is moved from a face never exceeds what the face holds\<close>
  have mv: "0 \<le> dict_get tl f 0 \<and> dict_get tl f 0 \<le> c" if fc: "(f, c) \<in> set d" for f c
  proof (cases "map_of tl f")
    case None
    then have "dict_get tl f 0 = 0" by (simp add: dict_get_def)
    with rng [OF fc] show ?thesis by simp
  next
    case (Some m)
    then have "(f, m) \<in> set tl" by (rule map_of_SomeD)
    from ent [OF this] obtain c' where c': "(f, c') \<in> set d" "0 < m" "m \<le> c'" by blast
    have "c' = c" by (rule uniq_entry [OF dd c'(1) fc])
    with c' Some show ?thesis by (simp add: dict_get_def)
  qed
  have d1_set: "(f, c') \<in> set d1 \<Longrightarrow> \<exists>c. (f, c) \<in> set d \<and> c' = c - dict_get tl f 0" for f c'
    by (auto simp: d1_def)
  have kept_D: "\<exists>c. (f, c) \<in> set d \<and> c' = c - dict_get tl f 0 \<and> \<not> (c' = 0 \<and> f \<in> fst ` set tl)"
    if "(f, c') \<in> set kept" for f c'
  proof -
    from that have "(f, c') \<in> set d1" and k: "\<not> (c' = 0 \<and> f \<in> fst ` set tl)"
      by (simp_all add: kept_def)
    from d1_set [OF this(1)] k show ?thesis by blast
  qed
  have dd1: "distinct (map fst d1)"
    unfolding d1_def using dd by (simp only: map_fst_entry)
  have pos_kept: "1 \<le> f \<and> f \<le> t \<and> 0 < c'" if "(f, c') \<in> set kept" for f c'
  proof -
    from kept_D [OF that] obtain c where c: "(f, c) \<in> set d" "c' = c - dict_get tl f 0"
      and keep: "\<not> (c' = 0 \<and> f \<in> fst ` set tl)" by blast
    have "0 < c'"
    proof (cases "f \<in> fst ` set tl")
      case True
      with keep have "c' \<noteq> 0" by simp
      with mv [OF c(1)] c(2) show ?thesis by simp
    next
      case False
      then have "dict_get tl f 0 = 0" by (rule dict_get_absent)
      with c rng [OF c(1)] show ?thesis by simp
    qed
    with rng [OF c(1)] show ?thesis by simp
  qed
  have ok_kept: "faces_ok t kept"
  proof -
    have "distinct (map fst kept)"
      unfolding kept_def using dd1 by (rule distinct_map_filter)
    with pos_kept show ?thesis by (auto simp: faces_ok_def)
  qed
  have ok_drop: "faces_ok t tl"
  proof -
    have "1 \<le> f \<and> f \<le> t \<and> 0 < m" if "(f, m) \<in> set tl" for f m
    proof -
      from ent [OF that] obtain c where "(f, c) \<in> set d" "0 < m" by blast
      with rng [of f c] show ?thesis by simp
    qed
    with dtl show ?thesis by (auto simp: faces_ok_def)
  qed
  have sum_drop: "count_sum tl = min n (count_sum d)"
    using take_lowest_sum [OF n pxs] cxs by (simp add: tl_def)
  have sum_all: "count_sum kept + count_sum tl = count_sum d"
  proof -
    have "drop_loop xs d [] n = Inr (d1, [] @ tl)"
      unfolding d1_def tl_def by (rule drop_loop_closed [OF dd _ dxs]) (simp_all add: sx)
    then have loop: "drop_loop xs d [] n = Inr (d1, tl)" by simp
    have "fst ` set [] \<inter> fst ` set xs = {}" by simp
    from drop_loop_total [OF dxs this loop] have "count_sum d1 + count_sum tl = count_sum d"
      by simp
    moreover have "count_sum kept = count_sum d1"
      unfolding kept_def by (rule count_sum_filter_zero [where P = "\<lambda>f. f \<in> fst ` set tl"])
    ultimately show ?thesis by simp
  qed
  have order: "f \<le> g" if f: "f \<in> fst ` set tl" and g: "g \<in> fst ` set kept" for f g
  proof -
    from g obtain e where e: "e \<in> set kept" "fst e = g" by blast
    obtain a b where ab: "e = (a, b)" by (cases e)
    with e have gk: "(g, b) \<in> set kept" by simp
    from kept_D [OF gk] obtain c where c: "(g, c) \<in> set d" "b = c - dict_get tl g 0" by blast
    from pos_kept [OF gk] have "0 < b" by simp
    with c have less: "dict_get (take_lowest xs n) g 0 < c" by (simp add: tl_def)
    have gx: "(g, c) \<in> set xs" using c(1) sx by simp
    from f have f': "f \<in> fst ` set (take_lowest xs n)" by (simp add: tl_def)
    show "f \<le> g" by (rule take_lowest_order [OF n pxs srt dxs f' gx less])
  qed
  have face: "dict_get kept f 0 + dict_get tl f 0 = dict_get d f 0" for f
  proof (cases "map_of d f")
    case None
    then have nf: "f \<notin> fst ` set d" by (simp add: map_of_eq_None_iff)
    then have "f \<notin> fst ` set tl" using ktl by blast
    then have a: "dict_get tl f 0 = 0" by (rule dict_get_absent)
    have "f \<notin> fst ` set kept"
    proof
      assume "f \<in> fst ` set kept"
      then obtain e where e: "e \<in> set kept" "fst e = f" by blast
      obtain a b where "e = (a, b)" by (cases e)
      with e have "(f, b) \<in> set kept" by simp
      from kept_D [OF this] nf show False by force
    qed
    then have b: "dict_get kept f 0 = 0" by (rule dict_get_absent)
    from a b None show ?thesis by (simp add: dict_get_def)
  next
    case (Some c)
    have m1: "map_of d1 f = Some (c - dict_get tl f 0)"
      unfolding d1_def using Some by (simp add: map_of_map_entry)
    have "map_of kept f =
        (if \<not> (c - dict_get tl f 0 = 0 \<and> f \<in> fst ` set tl) then Some (c - dict_get tl f 0) else None)"
      unfolding kept_def using map_of_filter_distinct [OF dd1, of _ f] m1 by simp
    then have "dict_get kept f 0 = c - dict_get tl f 0"
      by (simp add: dict_get_def)
    with Some show ?thesis by (simp add: dict_get_def)
  qed
  have drain: "kept = [] \<and> tl = xs" if "count_sum d \<le> n"
  proof -
    from that cxs have "count_sum xs \<le> n" by simp
    from take_lowest_all [OF pxs this] have tl: "tl = xs" by (simp add: tl_def)
    have gone: "c' = 0 \<and> f \<in> fst ` set tl" if "(f, c') \<in> set d1" for f c'
    proof -
      from d1_set [OF that] obtain c where c: "(f, c) \<in> set d" "c' = c - dict_get tl f 0" by blast
      from c(1) sx have in_xs: "(f, c) \<in> set xs" by simp
      then have "map_of xs f = Some c" using dxs by simp
      then have "dict_get tl f 0 = c" by (simp add: dict_get_def tl)
      moreover have "f \<in> fst ` set tl" using in_xs tl by force
      ultimately show ?thesis using c(2) by simp
    qed
    have "kept = []"
      unfolding kept_def filter_empty_conv using gone by blast
    with tl show ?thesis by simp
  qed
  show ?thesis
  proof (intro exI [of _ p'] conjI)
    show "drop_lowest p n = Inr p'" by (rule run)
    show "num p' = num p" "type p' = type p" by (rule sel)+
    show "faces_ok t (dice p')" using ok_kept by (simp only: sel)
    show "faces_ok t (dropped p')" using ok_drop by (simp only: sel)
    show "count_sum (dropped p') = min n (count_sum (dice p))"
      using sum_drop by (simp only: sel d_def)
    show "count_sum (dice p') + count_sum (dropped p') = count_sum (dice p)"
      using sum_all by (simp only: sel d_def)
    show "\<forall>f \<in> fst ` set (dropped p'). \<forall>g \<in> fst ` set (dice p'). f \<le> g"
      unfolding sel using order by blast
    show "\<forall>f. dict_get (dice p') f 0 + dict_get (dropped p') f 0 = dict_get (dice p) f 0"
      unfolding sel using face by (simp only: d_def) blast
    show "count_sum (dice p) \<le> n \<longrightarrow> dice p' = [] \<and> dropped p' = sort_key fst (dice p)"
      unfolding sel using drain by (simp only: d_def xs_def) blast
  qed
qed

subsection \<open>Construction and the first drop\<close>

lemma faces_ok_D:
  "faces_ok t d \<Longrightarrow> (f, c) \<in> set d \<Longrightarrow> 1 \<le> f \<and> f \<le> t \<and> 0 < c"
  by (auto simp: faces_ok_def)

text \<open>
  C3. A pouch constructed with \<open>0 \<le> count\<close> and \<open>faces \<ge> 1\<close> holds
  \<open>count\<close> dice: the counts in \<open>dice\<close> and \<open>dropped\<close> sum to \<open>count\<close> and
  none is negative; after \<open>drop_lowest(k)\<close> with \<open>k \<ge> 0\<close> on that pouch, which
  returns without an error, both still hold.
\<close>

theorem pouch_count_invariant:
  assumes "0 \<le> n" and "1 \<le> t" and "0 \<le> k"
  shows "\<exists>p g'. DicePouch_init n t g = Inr (p, g')
      \<and> count_sum (dice p) + count_sum (dropped p) = n
      \<and> (\<forall>(f, c) \<in> set (dice p) \<union> set (dropped p). 0 \<le> c)
      \<and> (\<exists>p'. drop_lowest p k = Inr p'
            \<and> count_sum (dice p') + count_sum (dropped p') = n
            \<and> (\<forall>(f, c) \<in> set (dice p') \<union> set (dropped p'). 0 \<le> c))"
proof -
  from DicePouch_init_ok [OF assms(1,2), of g] obtain p g' where
    i: "DicePouch_init n t g = Inr (p, g')" and dr: "dropped p = []"
    and ok: "faces_ok t (dice p)" and s: "count_sum (dice p) = n" by blast
  from drop_lowest_facts [OF ok dr assms(3)] obtain p' where
    d: "drop_lowest p k = Inr p'" and okk: "faces_ok t (dice p')" and okd: "faces_ok t (dropped p')"
    and s': "count_sum (dice p') + count_sum (dropped p') = count_sum (dice p)" by blast
  have a: "\<forall>(f, c) \<in> set (dice p) \<union> set (dropped p). 0 \<le> c"
    using ok dr by (auto dest!: faces_ok_D)
  have b: "\<forall>(f, c) \<in> set (dice p') \<union> set (dropped p'). 0 \<le> c"
    using okk okd by (auto dest!: faces_ok_D)
  from i dr s d s' a b show ?thesis by (intro exI [of _ p] exI [of _ g']) auto
qed

theorem pouch_count_invariant_witness:
  "(0 :: int) \<le> 2 \<and> (1 :: int) \<le> 6 \<and> (0 :: int) \<le> 1
   \<and> (\<exists>p g'. DicePouch_init 2 6 (\<lambda>i. i) = Inr (p, g')
      \<and> count_sum (dice p) + count_sum (dropped p) = 2
      \<and> (\<forall>(f, c) \<in> set (dice p) \<union> set (dropped p). 0 \<le> c)
      \<and> (\<exists>p'. drop_lowest p 1 = Inr p'
            \<and> count_sum (dice p') + count_sum (dropped p') = 2
            \<and> (\<forall>(f, c) \<in> set (dice p') \<union> set (dropped p'). 0 \<le> c)))"
  using pouch_count_invariant [of 2 6 1 "\<lambda>i. i"] by simp

text \<open>
  C4. On a pouch constructed with \<open>count\<close> dice and \<open>faces \<ge> 1\<close>, and for
  \<open>0 \<le> k \<le> count\<close>, \<open>drop_lowest(k)\<close> leaves \<open>count - k\<close> dice in
  \<open>dice\<close> and \<open>k\<close> in \<open>dropped\<close>; for every face value the two counts add up to
  the count the face had before, so the dropped dice are dice that were kept; every count
  left is positive; and every face value in \<open>dropped\<close> is \<open>\<le>\<close> every face value
  in \<open>dice\<close>.
\<close>

theorem drop_lowest_moves_n_lowest:
  assumes "0 \<le> n" and "1 \<le> t" and "0 \<le> k" and "k \<le> n"
    and "DicePouch_init n t g = Inr (p, g')"
  shows "\<exists>p'. drop_lowest p k = Inr p'
      \<and> count_sum (dice p') = n - k \<and> count_sum (dropped p') = k
      \<and> (\<forall>f. dict_get (dice p') f 0 + dict_get (dropped p') f 0 = dict_get (dice p) f 0)
      \<and> (\<forall>(f, c) \<in> set (dice p') \<union> set (dropped p'). 0 < c)
      \<and> (\<forall>f \<in> fst ` set (dropped p'). \<forall>f' \<in> fst ` set (dice p'). f \<le> f')"
proof -
  from DicePouch_init_ok [OF assms(1,2), of g] assms(5) have
    dr: "dropped p = []" and ok: "faces_ok t (dice p)" and s: "count_sum (dice p) = n" by auto
  from drop_lowest_facts [OF ok dr assms(3)] obtain p' where
    d: "drop_lowest p k = Inr p'" and okk: "faces_ok t (dice p')" and okd: "faces_ok t (dropped p')"
    and sd: "count_sum (dropped p') = min k (count_sum (dice p))"
    and s': "count_sum (dice p') + count_sum (dropped p') = count_sum (dice p)"
    and ord: "\<forall>f \<in> fst ` set (dropped p'). \<forall>g \<in> fst ` set (dice p'). f \<le> g"
    and face: "\<forall>f. dict_get (dice p') f 0 + dict_get (dropped p') f 0 = dict_get (dice p) f 0"
    by blast
  have 1: "count_sum (dropped p') = k" using sd s assms(4) by simp
  have 2: "count_sum (dice p') = n - k" using s' 1 s by simp
  have 3: "\<forall>(f, c) \<in> set (dice p') \<union> set (dropped p'). 0 < c"
    using okk okd by (auto dest!: faces_ok_D)
  from d 1 2 3 ord face show ?thesis by blast
qed


lemma init_2_6_count:
  "DicePouch_init 2 6 (\<lambda>i. i)
     = Inr (\<lparr>num = 2, type = 6, dice = [(1, 1), (2, 1)], dropped = []\<rparr>, \<lambda>i. Suc (Suc i))"
proof -
  have "roll_loop 2 6 [] (\<lambda>i. i) = Inr ([(1, 1), (2, 1)], \<lambda>i. Suc (Suc i))"
    unfolding numeral_2_eq_2 by (simp add: randint_def setdefault_def)
  then show ?thesis by (simp add: DicePouch_init_def roll_dice_def)
qed

theorem drop_lowest_moves_n_lowest_witness:
  "(0 :: int) \<le> 2 \<and> (1 :: int) \<le> 6 \<and> (0 :: int) \<le> 1 \<and> (1 :: int) \<le> 2
   \<and> DicePouch_init 2 6 (\<lambda>i. i)
        = Inr (\<lparr>num = 2, type = 6, dice = [(1, 1), (2, 1)], dropped = []\<rparr>, \<lambda>i. Suc (Suc i))
   \<and> (\<exists>p'. drop_lowest \<lparr>num = 2, type = 6, dice = [(1, 1), (2, 1)], dropped = []\<rparr> 1 = Inr p'
      \<and> count_sum (dice p') = 2 - 1 \<and> count_sum (dropped p') = 1
      \<and> (\<forall>f. dict_get (dice p') f 0 + dict_get (dropped p') f 0
               = dict_get (dice \<lparr>num = 2, type = 6, dice = [(1, 1), (2, 1)], dropped = []\<rparr>) f 0)
      \<and> (\<forall>(f, c) \<in> set (dice p') \<union> set (dropped p'). 0 < c)
      \<and> (\<forall>f \<in> fst ` set (dropped p'). \<forall>f' \<in> fst ` set (dice p'). f \<le> f'))"
  using drop_lowest_moves_n_lowest [of 2 6 1 "\<lambda>i. i"
      "\<lparr>num = 2, type = 6, dice = [(1, 1), (2, 1)], dropped = []\<rparr>" "\<lambda>i. Suc (Suc i)"]
    init_2_6_count
  by simp

subsection \<open>Rolling one dice expression\<close>

lemma priv_roll_dice_checked:
  assumes cnt: "(if group_dice_num m \<noteq> [] then py_int (group_dice_num m) else Inr 1) = Inr n"
    and ty: "py_int (group_dice_type m) = Inr t"
  shows "priv_roll_dice m g =
      (if t \<le> 0 then Inl (InvalidDiceFacesError t)
       else if n < 0 then Inl (NegativeDiceCountError n)
       else if n > MAX_DICE then Inl (TooManyDiceError n MAX_DICE)
       else
         (case DicePouch_init n t g of
            Inl e \<Rightarrow> Inl e
          | Inr (pouch, g') \<Rightarrow>
              (case group_drop_lowest m of
                 None \<Rightarrow> Inr (pouch, g')
               | Some drop_text \<Rightarrow>
                   if drop_text = [] then Inr (pouch, g')
                   else
                     (case py_int drop_text of
                        Inl e \<Rightarrow> Inl e
                      | Inr drop_n \<Rightarrow>
                          if drop_n \<ge> 0 then
                            (case drop_lowest pouch drop_n of
                               Inl e \<Rightarrow> Inl e
                             | Inr pouch' \<Rightarrow> Inr (pouch', g'))
                          else Inl (UnableToDropDiceError drop_n n)))))"
  unfolding priv_roll_dice_def cnt ty by simp

text \<open>
  C6. On a pouch constructed with \<open>count \<ge> 0\<close> dice, \<open>drop_lowest(k)\<close> with
  \<open>k > count\<close> returns without an error, leaves \<open>dice\<close> empty and holds all
  \<open>count\<close> dice in \<open>dropped\<close>. In \<open>_roll_dice\<close>, a drop count \<open>k\<close> raises
  \<open>UnableToDropDiceError\<close> when it is negative; when it is not, the roll succeeds, also
  with \<open>k > count\<close>, where the pouch comes back drained.
\<close>

theorem drop_beyond_count_drains:
  assumes "0 \<le> n" and "1 \<le> t"
  shows "(\<forall>p g' k. DicePouch_init n t g = Inr (p, g') \<and> n < k \<longrightarrow>
            (\<exists>p'. drop_lowest p k = Inr p' \<and> dice p' = []
               \<and> dropped p' = sort_key fst (dice p) \<and> count_sum (dropped p') = n))
     \<and> (\<forall>m s k.
            (if group_dice_num m \<noteq> [] then py_int (group_dice_num m) else Inr 1) = Inr n
            \<and> py_int (group_dice_type m) = Inr t \<and> n \<le> MAX_DICE
            \<and> group_drop_lowest m = Some s \<and> s \<noteq> [] \<and> py_int s = Inr k \<longrightarrow>
            (k < 0 \<longrightarrow> priv_roll_dice m g = Inl (UnableToDropDiceError k n))
            \<and> (0 \<le> k \<longrightarrow> (\<exists>p' g'. priv_roll_dice m g = Inr (p', g')))
            \<and> (n < k \<longrightarrow> (\<exists>p' g'. priv_roll_dice m g = Inr (p', g') \<and> dice p' = []
                               \<and> count_sum (dropped p') = n)))"
proof -
  from DicePouch_init_ok [OF assms, of g] obtain p g' where
    i: "DicePouch_init n t g = Inr (p, g')" and dr: "dropped p = []"
    and ok: "faces_ok t (dice p)" and s: "count_sum (dice p) = n" by blast
  have drain: "\<exists>p'. drop_lowest p k = Inr p' \<and> dice p' = []
               \<and> dropped p' = sort_key fst (dice p) \<and> count_sum (dropped p') = n"
    if "n < k" for k
  proof -
    from that assms(1) have k: "0 \<le> k" by simp
    from drop_lowest_facts [OF ok dr k] obtain p' where
      d: "drop_lowest p k = Inr p'"
      and sd: "count_sum (dropped p') = min k (count_sum (dice p))"
      and all: "count_sum (dice p) \<le> k \<longrightarrow> dice p' = [] \<and> dropped p' = sort_key fst (dice p)"
      by blast
    from that s sd all d show ?thesis by auto
  qed
  have part1: "\<forall>p0 g0 k. DicePouch_init n t g = Inr (p0, g0) \<and> n < k \<longrightarrow>
            (\<exists>p'. drop_lowest p0 k = Inr p' \<and> dice p' = []
               \<and> dropped p' = sort_key fst (dice p0) \<and> count_sum (dropped p') = n)"
    using i drain by auto
  have part2: "(k < 0 \<longrightarrow> priv_roll_dice m g = Inl (UnableToDropDiceError k n))
            \<and> (0 \<le> k \<longrightarrow> (\<exists>p' g'. priv_roll_dice m g = Inr (p', g')))
            \<and> (n < k \<longrightarrow> (\<exists>p' g'. priv_roll_dice m g = Inr (p', g') \<and> dice p' = []
                               \<and> count_sum (dropped p') = n))"
    if h: "(if group_dice_num m \<noteq> [] then py_int (group_dice_num m) else Inr 1) = Inr n"
      "py_int (group_dice_type m) = Inr t" "n \<le> MAX_DICE"
      "group_drop_lowest m = Some s" "s \<noteq> []" "py_int s = Inr k" for m s k
  proof -
    have run: "priv_roll_dice m g =
        (if k \<ge> 0 then (case drop_lowest p k of Inl e \<Rightarrow> Inl e | Inr pouch' \<Rightarrow> Inr (pouch', g'))
         else Inl (UnableToDropDiceError k n))"
      using priv_roll_dice_checked [OF h(1,2), of g] assms h(3-6) i by simp
    have neg: "priv_roll_dice m g = Inl (UnableToDropDiceError k n)" if "k < 0"
      using run that by simp
    have nonneg: "\<exists>p' g'. priv_roll_dice m g = Inr (p', g')" if k: "0 \<le> k"
    proof -
      from drop_lowest_facts [OF ok dr k] obtain p' where "drop_lowest p k = Inr p'" by blast
      with run k show ?thesis by simp
    qed
    have big: "\<exists>p' g'. priv_roll_dice m g = Inr (p', g') \<and> dice p' = [] \<and> count_sum (dropped p') = n"
      if k: "n < k"
    proof -
      from drain [OF k] obtain p' where "drop_lowest p k = Inr p'" "dice p' = []"
        "count_sum (dropped p') = n" by blast
      with run k assms(1) show ?thesis by simp
    qed
    from neg nonneg big show ?thesis by blast
  qed
  from part1 part2 show ?thesis by blast
qed


lemma py_int_digits:
  "py_int ''2'' = Inr 2" "py_int ''6'' = Inr 6" "py_int ''5'' = Inr 5"
  "py_int ''0'' = Inr 0" "py_int ''1'' = Inr 1" "py_int ''-3'' = Inr (- 3)"
  "py_int ''-1'' = Inr (- 1)" "py_int ''1001'' = Inr 1001"
  by (simp_all add: py_int_def decimal_def digit_value_def is_digit_def)

theorem drop_beyond_count_drains_witness:
  "(0 :: int) \<le> 2 \<and> (1 :: int) \<le> 6 \<and> (2 :: int) < 5 \<and> \<not> ((- 1 :: int) \<ge> 0)
   \<and> DicePouch_init 2 6 (\<lambda>i. i)
        = Inr (\<lparr>num = 2, type = 6, dice = [(1, 1), (2, 1)], dropped = []\<rparr>, \<lambda>i. Suc (Suc i))
   \<and> (\<exists>p'. drop_lowest \<lparr>num = 2, type = 6, dice = [(1, 1), (2, 1)], dropped = []\<rparr> 5 = Inr p'
         \<and> dice p' = []
         \<and> dropped p' = sort_key fst (dice \<lparr>num = 2, type = 6, dice = [(1, 1), (2, 1)], dropped = []\<rparr>)
         \<and> count_sum (dropped p') = 2)
   \<and> priv_roll_dice \<lparr>group_dice_num = ''2'', group_dice_type = ''6'', group_drop_lowest = Some ''-1''\<rparr>
         (\<lambda>i. i) = Inl (UnableToDropDiceError (- 1) 2)
   \<and> (\<exists>p' g'. priv_roll_dice
           \<lparr>group_dice_num = ''2'', group_dice_type = ''6'', group_drop_lowest = Some ''5''\<rparr> (\<lambda>i. i)
             = Inr (p', g') \<and> dice p' = [] \<and> count_sum (dropped p') = 2)"
proof -
  note t = drop_beyond_count_drains [of 2 6 "\<lambda>i. i"]
  have h: "(0 :: int) \<le> 2" "(1 :: int) \<le> 6" by simp_all
  from t [OF h] have
    pouch: "\<forall>p g' k. DicePouch_init 2 6 (\<lambda>i. i) = Inr (p, g') \<and> 2 < k \<longrightarrow>
            (\<exists>p'. drop_lowest p k = Inr p' \<and> dice p' = []
               \<and> dropped p' = sort_key fst (dice p) \<and> count_sum (dropped p') = 2)"
    and match: "\<forall>m s k.
            (if group_dice_num m \<noteq> [] then py_int (group_dice_num m) else Inr 1) = Inr 2
            \<and> py_int (group_dice_type m) = Inr 6 \<and> 2 \<le> MAX_DICE
            \<and> group_drop_lowest m = Some s \<and> s \<noteq> [] \<and> py_int s = Inr k \<longrightarrow>
            (k < 0 \<longrightarrow> priv_roll_dice m (\<lambda>i. i) = Inl (UnableToDropDiceError k 2))
            \<and> (0 \<le> k \<longrightarrow> (\<exists>p' g'. priv_roll_dice m (\<lambda>i. i) = Inr (p', g')))
            \<and> (2 < k \<longrightarrow> (\<exists>p' g'. priv_roll_dice m (\<lambda>i. i) = Inr (p', g') \<and> dice p' = []
                               \<and> count_sum (dropped p') = 2))"
    by blast+
  have a: "\<exists>p'. drop_lowest \<lparr>num = 2, type = 6, dice = [(1, 1), (2, 1)], dropped = []\<rparr> 5 = Inr p'
         \<and> dice p' = []
         \<and> dropped p' = sort_key fst (dice \<lparr>num = 2, type = 6, dice = [(1, 1), (2, 1)], dropped = []\<rparr>)
         \<and> count_sum (dropped p') = 2"
    using pouch [rule_format, of "\<lparr>num = 2, type = 6, dice = [(1, 1), (2, 1)], dropped = []\<rparr>"
        "\<lambda>i. Suc (Suc i)" 5] init_2_6_count by simp
  have b: "priv_roll_dice \<lparr>group_dice_num = ''2'', group_dice_type = ''6'', group_drop_lowest = Some ''-1''\<rparr>
         (\<lambda>i. i) = Inl (UnableToDropDiceError (- 1) 2)"
    using match [rule_format,
        of "\<lparr>group_dice_num = ''2'', group_dice_type = ''6'', group_drop_lowest = Some ''-1''\<rparr>"
        "''-1''" "- 1"]
    by (simp add: py_int_digits MAX_DICE_def)
  have c: "\<exists>p' g'. priv_roll_dice
           \<lparr>group_dice_num = ''2'', group_dice_type = ''6'', group_drop_lowest = Some ''5''\<rparr> (\<lambda>i. i)
             = Inr (p', g') \<and> dice p' = [] \<and> count_sum (dropped p') = 2"
    using match [rule_format,
        of "\<lparr>group_dice_num = ''2'', group_dice_type = ''6'', group_drop_lowest = Some ''5''\<rparr>"
        "''5''" 5]
    by (simp add: py_int_digits MAX_DICE_def)
  from a b c init_2_6_count show ?thesis by simp
qed

text \<open>
  C5. For a match whose count and faces read as \<open>count\<close> and \<open>faces\<close>,
  \<open>_roll_dice\<close> raises \<open>InvalidDiceFacesError(faces)\<close> when \<open>faces \<le> 0\<close>,
  whatever the count; \<open>NegativeDiceCountError(count)\<close> when \<open>faces \<ge> 1\<close> and
  \<open>count < 0\<close>; \<open>TooManyDiceError(count, 1000)\<close> when \<open>faces \<ge> 1\<close> and
  \<open>count > 1000\<close>. In every other case the pouch is constructed: it holds
  \<open>count\<close> dice, each with a face value in \<open>1..faces\<close>, nothing dropped, and it is
  what \<open>_roll_dice\<close> returns when the match has no drop part. Faces \<open>0\<close> and
  \<open>-3\<close>, count \<open>-1\<close> and count \<open>1001\<close> give the three errors.
\<close>

theorem roll_dice_construction:
  assumes cnt: "(if group_dice_num m \<noteq> [] then py_int (group_dice_num m) else Inr 1) = Inr n"
    and ty: "py_int (group_dice_type m) = Inr t"
  shows "(t \<le> 0 \<longrightarrow> priv_roll_dice m g = Inl (InvalidDiceFacesError t))
     \<and> (1 \<le> t \<and> n < 0 \<longrightarrow> priv_roll_dice m g = Inl (NegativeDiceCountError n))
     \<and> (1 \<le> t \<and> 1000 < n \<longrightarrow> priv_roll_dice m g = Inl (TooManyDiceError n 1000))
     \<and> (1 \<le> t \<and> 0 \<le> n \<and> n \<le> 1000 \<longrightarrow>
          (\<exists>p g'. DicePouch_init n t g = Inr (p, g') \<and> num p = n \<and> type p = t
             \<and> dropped p = [] \<and> count_sum (dice p) = n
             \<and> (\<forall>(f, c) \<in> set (dice p). 1 \<le> f \<and> f \<le> t \<and> 0 < c)
             \<and> (group_drop_lowest m = None \<longrightarrow> priv_roll_dice m g = Inr (p, g'))))
     \<and> priv_roll_dice \<lparr>group_dice_num = ''1'', group_dice_type = ''0'', group_drop_lowest = None\<rparr> g
          = Inl (InvalidDiceFacesError 0)
     \<and> priv_roll_dice \<lparr>group_dice_num = ''1'', group_dice_type = ''-3'', group_drop_lowest = None\<rparr> g
          = Inl (InvalidDiceFacesError (- 3))
     \<and> priv_roll_dice \<lparr>group_dice_num = ''-1'', group_dice_type = ''0'', group_drop_lowest = None\<rparr> g
          = Inl (InvalidDiceFacesError 0)
     \<and> priv_roll_dice \<lparr>group_dice_num = ''-1'', group_dice_type = ''6'', group_drop_lowest = None\<rparr> g
          = Inl (NegativeDiceCountError (- 1))
     \<and> priv_roll_dice \<lparr>group_dice_num = ''1001'', group_dice_type = ''6'', group_drop_lowest = None\<rparr> g
          = Inl (TooManyDiceError 1001 1000)"
proof -
  note run = priv_roll_dice_checked [OF cnt ty, of g]
  have a: "priv_roll_dice m g = Inl (InvalidDiceFacesError t)" if "t \<le> 0"
    using run that by simp
  have b: "priv_roll_dice m g = Inl (NegativeDiceCountError n)" if "1 \<le> t \<and> n < 0"
    using run that by simp
  have c: "priv_roll_dice m g = Inl (TooManyDiceError n 1000)" if "1 \<le> t \<and> 1000 < n"
    using run that by (simp add: MAX_DICE_def)
  have d: "\<exists>p g'. DicePouch_init n t g = Inr (p, g') \<and> num p = n \<and> type p = t
             \<and> dropped p = [] \<and> count_sum (dice p) = n
             \<and> (\<forall>(f, c) \<in> set (dice p). 1 \<le> f \<and> f \<le> t \<and> 0 < c)
             \<and> (group_drop_lowest m = None \<longrightarrow> priv_roll_dice m g = Inr (p, g'))"
    if h: "1 \<le> t \<and> 0 \<le> n \<and> n \<le> 1000"
  proof -
    from h have n0: "0 \<le> n" and t1: "1 \<le> t" by simp_all
    from DicePouch_init_ok [OF n0 t1, of g] obtain p g' where
      i: "DicePouch_init n t g = Inr (p, g')" and f: "num p = n" "type p = t" "dropped p = []"
      and ok: "faces_ok t (dice p)" and s: "count_sum (dice p) = n" by blast
    have r: "\<forall>(f, c) \<in> set (dice p). 1 \<le> f \<and> f \<le> t \<and> 0 < c"
      using ok by (simp add: faces_ok_def)
    have q: "group_drop_lowest m = None \<longrightarrow> priv_roll_dice m g = Inr (p, g')"
      using run h i by (simp add: MAX_DICE_def)
    show ?thesis
      by (intro exI [of _ p] exI [of _ g'] conjI) (rule i f s r q)+
  qed
  have e1: "priv_roll_dice \<lparr>group_dice_num = ''1'', group_dice_type = ''0'', group_drop_lowest = None\<rparr> g
          = Inl (InvalidDiceFacesError 0)"
    by (simp add: priv_roll_dice_def py_int_digits)
  have e2: "priv_roll_dice \<lparr>group_dice_num = ''1'', group_dice_type = ''-3'', group_drop_lowest = None\<rparr> g
          = Inl (InvalidDiceFacesError (- 3))"
    by (simp add: priv_roll_dice_def py_int_digits)
  have e3: "priv_roll_dice \<lparr>group_dice_num = ''-1'', group_dice_type = ''0'', group_drop_lowest = None\<rparr> g
          = Inl (InvalidDiceFacesError 0)"
    by (simp add: priv_roll_dice_def py_int_digits)
  have e4: "priv_roll_dice \<lparr>group_dice_num = ''-1'', group_dice_type = ''6'', group_drop_lowest = None\<rparr> g
          = Inl (NegativeDiceCountError (- 1))"
    by (simp add: priv_roll_dice_def py_int_digits)
  have e5: "priv_roll_dice \<lparr>group_dice_num = ''1001'', group_dice_type = ''6'', group_drop_lowest = None\<rparr> g
          = Inl (TooManyDiceError 1001 1000)"
    by (simp add: priv_roll_dice_def py_int_digits MAX_DICE_def)
  from a b c d e1 e2 e3 e4 e5 show ?thesis by blast
qed


theorem roll_dice_construction_witness:
  "(if group_dice_num \<lparr>group_dice_num = ''2'', group_dice_type = ''6'', group_drop_lowest = None\<rparr> \<noteq> []
     then py_int (group_dice_num \<lparr>group_dice_num = ''2'', group_dice_type = ''6'', group_drop_lowest = None\<rparr>)
     else Inr 1) = Inr 2
   \<and> py_int (group_dice_type \<lparr>group_dice_num = ''2'', group_dice_type = ''6'', group_drop_lowest = None\<rparr>)
       = Inr 6
   \<and> (1 :: int) \<le> 6 \<and> (0 :: int) \<le> 2 \<and> (2 :: int) \<le> 1000
   \<and> group_drop_lowest \<lparr>group_dice_num = ''2'', group_dice_type = ''6'', group_drop_lowest = None\<rparr> = None
   \<and> (\<exists>p g'. DicePouch_init 2 6 (\<lambda>i. i) = Inr (p, g') \<and> num p = 2 \<and> type p = 6
         \<and> dropped p = [] \<and> count_sum (dice p) = 2
         \<and> (\<forall>(f, c) \<in> set (dice p). 1 \<le> f \<and> f \<le> 6 \<and> 0 < c)
         \<and> priv_roll_dice \<lparr>group_dice_num = ''2'', group_dice_type = ''6'', group_drop_lowest = None\<rparr>
              (\<lambda>i. i) = Inr (p, g'))
   \<and> py_int ''0'' = Inr 0 \<and> (0 :: int) \<le> 0
   \<and> priv_roll_dice \<lparr>group_dice_num = ''2'', group_dice_type = ''0'', group_drop_lowest = None\<rparr>
        (\<lambda>i. i) = Inl (InvalidDiceFacesError 0)
   \<and> py_int ''-1'' = Inr (- 1) \<and> (- 1 :: int) < 0
   \<and> priv_roll_dice \<lparr>group_dice_num = ''-1'', group_dice_type = ''6'', group_drop_lowest = None\<rparr>
        (\<lambda>i. i) = Inl (NegativeDiceCountError (- 1))
   \<and> py_int ''1001'' = Inr 1001 \<and> (1000 :: int) < 1001
   \<and> priv_roll_dice \<lparr>group_dice_num = ''1001'', group_dice_type = ''6'', group_drop_lowest = None\<rparr>
        (\<lambda>i. i) = Inl (TooManyDiceError 1001 1000)"
proof -
  have ok: "\<exists>p g'. DicePouch_init 2 6 (\<lambda>i. i) = Inr (p, g') \<and> num p = 2 \<and> type p = 6
         \<and> dropped p = [] \<and> count_sum (dice p) = 2
         \<and> (\<forall>(f, c) \<in> set (dice p). 1 \<le> f \<and> f \<le> 6 \<and> 0 < c)
         \<and> priv_roll_dice \<lparr>group_dice_num = ''2'', group_dice_type = ''6'', group_drop_lowest = None\<rparr>
              (\<lambda>i. i) = Inr (p, g')"
    using roll_dice_construction
      [of "\<lparr>group_dice_num = ''2'', group_dice_type = ''6'', group_drop_lowest = None\<rparr>" 2 6 "\<lambda>i. i"]
    by (simp add: py_int_digits)
  have faces: "priv_roll_dice \<lparr>group_dice_num = ''2'', group_dice_type = ''0'', group_drop_lowest = None\<rparr>
        (\<lambda>i. i) = Inl (InvalidDiceFacesError 0)"
    using roll_dice_construction
      [of "\<lparr>group_dice_num = ''2'', group_dice_type = ''0'', group_drop_lowest = None\<rparr>" 2 0 "\<lambda>i. i"]
    by (simp add: py_int_digits)
  have neg: "priv_roll_dice \<lparr>group_dice_num = ''-1'', group_dice_type = ''6'', group_drop_lowest = None\<rparr>
        (\<lambda>i. i) = Inl (NegativeDiceCountError (- 1))"
    using roll_dice_construction
      [of "\<lparr>group_dice_num = ''-1'', group_dice_type = ''6'', group_drop_lowest = None\<rparr>" "- 1" 6 "\<lambda>i. i"]
    by (simp add: py_int_digits)
  have many: "priv_roll_dice \<lparr>group_dice_num = ''1001'', group_dice_type = ''6'', group_drop_lowest = None\<rparr>
        (\<lambda>i. i) = Inl (TooManyDiceError 1001 1000)"
    using roll_dice_construction
      [of "\<lparr>group_dice_num = ''1001'', group_dice_type = ''6'', group_drop_lowest = None\<rparr>" 1001 6 "\<lambda>i. i"]
    by (simp add: py_int_digits)
  from ok faces neg many show ?thesis by (simp add: py_int_digits)
qed

subsection \<open>The groups of the renderings\<close>

lemma str_nat_nonempty: "str_nat n \<noteq> []"
  by (subst str_nat.simps) simp

lemma str_int_nonempty: "str_int i \<noteq> []"
  by (simp add: str_int_def str_nat_nonempty)

lemma join_nonempty: "x \<noteq> [] \<Longrightarrow> join sep (x # xs) \<noteq> []"
  by (cases xs) simp_all

lemma simple_group_nonempty:
  "0 < c \<Longrightarrow> join ''+'' (replicate (nat c) (str_int f)) \<noteq> []"
proof -
  assume "0 < c"
  then obtain k where "nat c = Suc k" by (cases "nat c") simp_all
  then show ?thesis by (simp add: join_nonempty str_int_nonempty)
qed

text \<open>
  C10. In a constructed pouch, and in the pouch after \<open>drop_lowest(k)\<close> with
  \<open>k \<ge> 0\<close>, every face value that is a key of \<open>dice\<close> has a positive count (and
  so has every key of \<open>dropped\<close>): no group of the simple rendering is the empty
  text, and every group of the compressed rendering shows a positive count.
\<close>

theorem kept_groups_positive:
  assumes "0 \<le> n" and "1 \<le> t" and "0 \<le> k" and "DicePouch_init n t g = Inr (p, g')"
  shows "(\<forall>(f, c) \<in> set (dice p). 0 < c)
     \<and> (\<forall>s \<in> set (simple_groups (dice p)). s \<noteq> [])
     \<and> (\<exists>p'. drop_lowest p k = Inr p'
          \<and> (\<forall>(f, c) \<in> set (dice p'). 0 < c)
          \<and> (\<forall>(f, c) \<in> set (dropped p'). 0 < c)
          \<and> (\<forall>s \<in> set (simple_groups (dice p')). s \<noteq> [])
          \<and> (\<forall>s \<in> set (compressed_groups (dice p')).
                \<exists>f c. 0 < c \<and> s = str_int c @ ''x'' @ str_int f))"
proof -
  from DicePouch_init_ok [OF assms(1,2), of g] assms(4) have
    dr: "dropped p = []" and ok: "faces_ok t (dice p)" by auto
  from drop_lowest_facts [OF ok dr assms(3)] obtain p' where
    d: "drop_lowest p k = Inr p'" and okk: "faces_ok t (dice p')" and okd: "faces_ok t (dropped p')"
    by blast
  have pos: "\<And>f c. (f, c) \<in> set (dice p) \<Longrightarrow> 0 < c"
    using ok by (auto dest: faces_ok_D)
  have pos': "\<And>f c. (f, c) \<in> set (dice p') \<Longrightarrow> 0 < c"
    using okk by (auto dest: faces_ok_D)
  have posd: "\<And>f c. (f, c) \<in> set (dropped p') \<Longrightarrow> 0 < c"
    using okd by (auto dest: faces_ok_D)
  have 1: "\<forall>(f, c) \<in> set (dice p). 0 < c" using pos by auto
  have 2: "\<forall>s \<in> set (simple_groups (dice p)). s \<noteq> []"
    using pos by (auto simp: simple_groups_def simple_group_nonempty)
  have 3: "\<forall>(f, c) \<in> set (dice p'). 0 < c" using pos' by auto
  have 4: "\<forall>(f, c) \<in> set (dropped p'). 0 < c" using posd by auto
  have 5: "\<forall>s \<in> set (simple_groups (dice p')). s \<noteq> []"
    using pos' by (auto simp: simple_groups_def simple_group_nonempty)
  have 6: "\<forall>s \<in> set (compressed_groups (dice p')).
                \<exists>f c. 0 < c \<and> s = str_int c @ ''x'' @ str_int f"
    using pos' by (fastforce simp: compressed_groups_def)
  show ?thesis
    by (intro conjI exI [of _ p']) (rule 1 2 d 3 4 5 6)+
qed

theorem kept_groups_positive_witness:
  "(0 :: int) \<le> 2 \<and> (1 :: int) \<le> 6 \<and> (0 :: int) \<le> 1
   \<and> DicePouch_init 2 6 (\<lambda>i. i)
        = Inr (\<lparr>num = 2, type = 6, dice = [(1, 1), (2, 1)], dropped = []\<rparr>, \<lambda>i. Suc (Suc i))
   \<and> list_all (\<lambda>(f, c). 0 < c) (dice \<lparr>num = 2, type = 6, dice = [(1, 1), (2, 1)], dropped = []\<rparr>)
   \<and> (\<exists>p'. drop_lowest \<lparr>num = 2, type = 6, dice = [(1, 1), (2, 1)], dropped = []\<rparr> 1 = Inr p'
          \<and> (\<forall>(f, c) \<in> set (dice p'). 0 < c)
          \<and> (\<forall>(f, c) \<in> set (dropped p'). 0 < c)
          \<and> (\<forall>s \<in> set (simple_groups (dice p')). s \<noteq> [])
          \<and> (\<forall>s \<in> set (compressed_groups (dice p')).
                \<exists>f c. 0 < c \<and> s = str_int c @ ''x'' @ str_int f))"
  using kept_groups_positive [of 2 6 1 "\<lambda>i. i"
      "\<lparr>num = 2, type = 6, dice = [(1, 1), (2, 1)], dropped = []\<rparr>" "\<lambda>i. Suc (Suc i)"]
    init_2_6_count
  by simp

subsection \<open>The template of a roll\<close>

lemma finditer_2d6_plus_3:
  "finditer ''2d6+3''
     = [\<lparr>group_dice_num = ''2'', group_dice_type = ''6'', group_drop_lowest = None\<rparr>]"
  by (simp add: match_at_def match_drop_def signed_digits_def is_digit_def)

lemma template_2d6_plus_3:
  "re_sub ''%s'' (escape_percent ''2d6+3'') = ''%s+3''"
  by (simp add: escape_percent_def match_at_def match_drop_def signed_digits_def is_digit_def)

lemma strip_2d6_plus_3:
  "strip (split_hash ''2d6+3'') = ''2d6+3''"
  by (simp add: strip_def split_hash_def is_space_def)

lemma percent_format_suffix:
  "percent_format ''%s+3'' [x] = Inr (x @ ''+3'')"
  by simp

text \<open>
  C8, as the code has it. On \<open>2d6+3\<close> the pattern finds one dice expression, count
  \<open>2\<close>, faces \<open>6\<close>, no drop part, and the template is \<open>%s+3\<close>: the match is
  replaced by a bare placeholder. The parentheses come with the value filled in:
  \<open>eval_str\<close> is \<open>(sum)+3\<close>.
\<close>

theorem parse_2d6_plus_3:
  "finditer ''2d6+3''
     = [\<lparr>group_dice_num = ''2'', group_dice_type = ''6'', group_drop_lowest = None\<rparr>]
   \<and> re_sub ''%s'' (escape_percent (strip (split_hash ''2d6+3''))) = ''%s+3''
   \<and> (\<exists>p g'. roll (trg\<lparr>group2 := Some ''2d6+3''\<rparr>) g
          = Rolled ''2d6+3'' ''%s+3'' (''('' @ str_int (get_sum p) @ '')+3'')
              (get_simple_string p @ ''+3'') [p] g'
        \<and> num p = 2 \<and> type p = 6 \<and> dropped p = [] \<and> count_sum (dice p) = 2)"
proof -
  let ?m = "\<lparr>group_dice_num = ''2'', group_dice_type = ''6'', group_drop_lowest = None\<rparr>"
  have n: "(0 :: int) \<le> 2" and t: "(1 :: int) \<le> 6" by simp_all
  from DicePouch_init_ok [OF n t, of g] obtain p g' where
    i: "DicePouch_init 2 6 g = Inr (p, g')" and f: "num p = 2" "type p = 6" "dropped p = []"
    and s: "count_sum (dice p) = 2" by blast
  have cnt: "(if group_dice_num ?m \<noteq> [] then py_int (group_dice_num ?m) else Inr 1) = Inr 2"
    and ty: "py_int (group_dice_type ?m) = Inr 6"
    by (simp_all add: py_int_digits)
  have one: "priv_roll_dice ?m g = Inr (p, g')"
    using priv_roll_dice_checked [OF cnt ty, of g] i by (simp add: MAX_DICE_def)
  have all: "roll_all [?m] g = Inr ([p], g')"
    by (simp add: one)
  have pretty: "get_pretty_str p = get_simple_string p"
    by (simp add: get_pretty_str_def f)
  have r: "roll (trg\<lparr>group2 := Some ''2d6+3''\<rparr>) g
          = Rolled ''2d6+3'' ''%s+3'' (''('' @ str_int (get_sum p) @ '')+3'')
              (get_simple_string p @ ''+3'') [p] g'"
    by (simp add: roll_def Let_def strip_2d6_plus_3 finditer_2d6_plus_3 template_2d6_plus_3 all
        pretty get_eval_str_def percent_format_suffix
        del: finditer.simps re_sub.simps roll_all.simps percent_format.simps)
  have tpl: "re_sub ''%s'' (escape_percent (strip (split_hash ''2d6+3''))) = ''%s+3''"
    by (simp only: strip_2d6_plus_3 template_2d6_plus_3)
  show ?thesis
    by (intro conjI exI [of _ p] exI [of _ g']) (rule finditer_2d6_plus_3 tpl r f s)+
qed


text \<open>
  With a tape that rolls two ones, \<open>roll\<close> on \<open>2d6+3\<close> reaches the evaluation with
  the template \<open>%s+3\<close>, which is not \<open>(%s)+3\<close>.
\<close>

theorem template_2d6_plus_3_counterexample:
  "roll \<lparr>sender = ''#a'', nick = ''bob'', group2 = Some ''2d6+3''\<rparr> (\<lambda>i. 0)
     = Rolled ''2d6+3'' ''%s+3'' ''(2)+3'' ''(1+1)+3''
         [\<lparr>num = 2, type = 6, dice = [(1, 2)], dropped = []\<rparr>] (\<lambda>i. 0)
   \<and> ''%s+3'' \<noteq> ''(%s)+3''"
proof -
  let ?m = "\<lparr>group_dice_num = ''2'', group_dice_type = ''6'', group_drop_lowest = None\<rparr>"
  let ?p = "\<lparr>num = 2, type = 6, dice = [(1, 2)], dropped = []\<rparr>"
  have two: "roll_loop 2 6 [] (\<lambda>i. 0) = Inr ([(1, 2)], \<lambda>i. 0)"
    unfolding numeral_2_eq_2 by (simp add: randint_def setdefault_def)
  have i: "DicePouch_init 2 6 (\<lambda>i. 0) = Inr (?p, \<lambda>i. 0)"
    by (simp add: DicePouch_init_def roll_dice_def two)
  have cnt: "(if group_dice_num ?m \<noteq> [] then py_int (group_dice_num ?m) else Inr 1) = Inr 2"
    and ty: "py_int (group_dice_type ?m) = Inr 6"
    by (simp_all add: py_int_digits)
  have one: "priv_roll_dice ?m (\<lambda>i. 0) = Inr (?p, \<lambda>i. 0)"
    using priv_roll_dice_checked [OF cnt ty, of "\<lambda>i. 0"] i by (simp add: MAX_DICE_def)
  have all: "roll_all [?m] (\<lambda>i. 0) = Inr ([?p], \<lambda>i. 0)"
    by (simp add: one)
  have ev: "get_eval_str ?p = ''(2)''"
    by (simp add: get_eval_str_def get_sum_def str_int_def digit_char_def)
  have pr: "get_pretty_str ?p = ''(1+1)''"
    by (simp add: get_pretty_str_def get_simple_string_def simple_groups_def str_int_def
        digit_char_def numeral_2_eq_2)
  have r: "roll \<lparr>sender = ''#a'', nick = ''bob'', group2 = Some ''2d6+3''\<rparr> (\<lambda>i. 0)
     = Rolled ''2d6+3'' ''%s+3'' ''(2)+3'' ''(1+1)+3'' [?p] (\<lambda>i. 0)"
    by (simp add: roll_def Let_def strip_2d6_plus_3 finditer_2d6_plus_3 template_2d6_plus_3 all
        ev pr percent_format_suffix
        del: finditer.simps re_sub.simps roll_all.simps percent_format.simps)
  then show ?thesis by simp
qed

end
